theory Spec2Isabelle
  imports Complex_Main "HOL-Library.Multiset"
begin

section \<open>The item store of the TODO backend (packages/backend/src/app.js)\<close>

text \<open>
  The backend is an Express application over an in-memory SQLite table \<open>items\<close>.
  Each route handler is modelled as a function from the request (and the table) to a
  response (and the new table). What the handlers call but the repository does not
  contain is either modelled from its documented behaviour (JavaScript truthiness,
  \<open>String.prototype.trim\<close>, \<open>parseInt\<close>, SQLite's value ordering) or, where the
  behaviour is implementation-defined or large, taken as a parameter of the model
  (record \<open>engine\<close> below).

  Strings are lists of code units; the model covers strings whose code units are below
  256, one \<open>char\<close> per code unit, so that \<open>length\<close> is JavaScript's \<open>.length\<close>.
\<close>

subsection \<open>JavaScript values of a JSON request body\<close>

datatype jsval =
    JUndefined | JNull | JBool bool | JNum rat | JStr string
  | JArray "jsval list" | JObject string

text \<open>
  \<open>JUndefined\<close> is an absent field. \<open>JNum\<close> carries a finite number.
  \<open>JArray\<close> is an array with its elements. \<open>JObject\<close> is an object of the
  body, which is a plain object, named by its JSON text: the handlers look only at its
  truthiness and its type, and hand it to \<open>new Date\<close> and to the database driver,
  which looks in it for named parameters only.
\<close>

fun truthy :: "jsval \<Rightarrow> bool" where
  "truthy JUndefined = False"
| "truthy JNull = False"
| "truthy (JBool b) = b"
| "truthy (JNum q) = (q \<noteq> 0)"
| "truthy (JStr s) = (s \<noteq> [])"
| "truthy (JArray xs) = True"
| "truthy (JObject j) = True"

text \<open>The expression \<open>v || null\<close>.\<close>

definition or_null :: "jsval \<Rightarrow> jsval" where
  "or_null v = (if truthy v then v else JNull)"

subsection \<open>String operations\<close>

text \<open>White space and line terminators removed by \<open>trim\<close> (and skipped by
  \<open>parseInt\<close>): TAB, LF, VT, FF, CR, SPACE and NO-BREAK SPACE.\<close>

definition is_space :: "char \<Rightarrow> bool" where
  "is_space c = (of_char c \<in> {9, 10, 11, 12, 13, 32, 160 :: nat})"

definition trim :: "string \<Rightarrow> string" where
  "trim s = rev (dropWhile is_space (rev (dropWhile is_space s)))"

definition lower_char :: "char \<Rightarrow> char" where
  "lower_char c =
     (let n = of_char c :: nat
      in if (65 \<le> n \<and> n \<le> 90) \<or> (192 \<le> n \<and> n \<le> 222 \<and> n \<noteq> 215)
         then char_of (n + 32) else c)"

definition toLowerCase :: "string \<Rightarrow> string" where
  "toLowerCase s = map lower_char s"

text \<open>\<open>s.includes(sub)\<close>: \<open>sub\<close> occurs in \<open>s\<close> as a contiguous run.\<close>

fun includes_str :: "string \<Rightarrow> string \<Rightarrow> bool" where
  "includes_str [] sub = (sub = [])"
| "includes_str (c # cs) sub = (take (length sub) (c # cs) = sub \<or> includes_str cs sub)"

subsection \<open>parseInt\<close>

text \<open>
  \<open>parseInt(s)\<close> with no radix: skip leading white space, read an optional sign, take
  radix 16 after a \<open>0x\<close>/\<open>0X\<close> prefix and radix 10 otherwise, and read the longest
  run of digits; with no digit the result is NaN, here \<open>None\<close>. The value is the
  mathematical integer (the rounding to a double is not modelled).
\<close>

definition digit_val :: "nat \<Rightarrow> char \<Rightarrow> nat option" where
  "digit_val radix c =
     (let n = of_char c :: nat;
          d = (if 48 \<le> n \<and> n \<le> 57 then Some (n - 48)
               else if 97 \<le> n \<and> n \<le> 122 then Some (n - 87)
               else if 65 \<le> n \<and> n \<le> 90 then Some (n - 55)
               else None)
      in case d of None \<Rightarrow> None | Some v \<Rightarrow> if v < radix then Some v else None)"

definition digits_value :: "nat \<Rightarrow> string \<Rightarrow> nat" where
  "digits_value radix ds = foldl (\<lambda>acc c. acc * radix + (case digit_val radix c of Some v \<Rightarrow> v | None \<Rightarrow> 0)) 0 ds"

definition parseInt :: "string \<Rightarrow> int option" where
  "parseInt s =
     (let t = dropWhile is_space s;
          neg = (t \<noteq> [] \<and> hd t = CHR ''-'');
          u = (if t \<noteq> [] \<and> (hd t = CHR ''-'' \<or> hd t = CHR ''+'') then tl t else t);
          hex = (take 2 u = ''0x'' \<or> take 2 u = ''0X'');
          radix = (if hex then 16 else 10);
          w = (if hex then drop 2 u else u);
          ds = takeWhile (\<lambda>c. digit_val radix c \<noteq> None) w
      in if ds = [] then None
         else Some ((if neg then - 1 else 1) * int (digits_value radix ds)))"

subsection \<open>Errors\<close>

datatype error =
    NameRequired | NameTooLong | InvalidDueDate | InvalidId | NotFound | StoreFailure string

fun status :: "error \<Rightarrow> nat" where
  "status NameRequired = 400"
| "status NameTooLong = 400"
| "status InvalidDueDate = 400"
| "status InvalidId = 400"
| "status NotFound = 404"
| "status (StoreFailure m) = 500"

text \<open>The \<open>error\<close> string of the response body. \<open>StoreFailure\<close> is the answer
  of a handler's \<open>catch\<close> block and carries the message of its route.\<close>

fun message :: "error \<Rightarrow> string" where
  "message NameRequired = ''Item name is required''"
| "message NameTooLong = ''Item name must not exceed 200 characters''"
| "message InvalidDueDate = ''Invalid due date format''"
| "message InvalidId = ''Valid item ID is required''"
| "message NotFound = ''Item not found''"
| "message (StoreFailure m) = m"

subsection \<open>The SQLite table\<close>

text \<open>
  A stored value is NULL, a number (storage classes INTEGER and REAL, which SQLite
  compares with each other by value) or a text.
\<close>

datatype sqlval = SNull | SNum rat | SText string

text \<open>
  The parts of the platform that stay parameters of the model:
  \<^item> \<open>date_valid v\<close>: \<open>!isNaN(new Date(v).getTime())\<close>; what \<open>new Date\<close> accepts
    beyond the ISO format is implementation-defined;
  \<^item> \<open>text_numeric s\<close>: the number that SQLite reads a text as when it applies NUMERIC
    affinity, \<open>None\<close> when the text is not a well-formed numeric literal;
  \<^item> \<open>num_text q\<close>: the text that SQLite renders a number as under TEXT affinity.
\<close>

record engine =
  date_valid :: "jsval \<Rightarrow> bool"
  text_numeric :: "string \<Rightarrow> rat option"
  num_text :: "rat \<Rightarrow> string"

text \<open>
  Binding the arguments of \<open>stmt.run(...)\<close> to the statement's parameters, as
  better-sqlite3 does it. The arguments are taken from left to right:
  \<^item> an array is spread: each element is bound to the next parameter;
  \<^item> a plain object gives named parameters; the statements here have none, so it
    binds nothing, and a second plain object is refused;
  \<^item> any other value is bound to the next parameter.
  A value is bound when it is a number, a string or null (a number always as a REAL);
  anything else throws. At the end the number of values bound must be the number of
  parameters of the statement. Every failure is an exception (\<open>None\<close>), which the
  handler's \<open>catch\<close> turns into a 500 response; nothing is executed then.
\<close>

fun bind_value :: "jsval \<Rightarrow> sqlval option" where
  "bind_value JNull = Some SNull"
| "bind_value (JNum q) = Some (SNum q)"
| "bind_value (JStr s) = Some (SText s)"
| "bind_value _ = None"

fun bind_all :: "bool \<Rightarrow> jsval list \<Rightarrow> sqlval list option" where
  "bind_all bound_object [] = Some []"
| "bind_all bound_object (JArray xs # args) =
     (case those (map bind_value xs) of
        None \<Rightarrow> None
      | Some vs \<Rightarrow> map_option (\<lambda>ws. vs @ ws) (bind_all bound_object args))"
| "bind_all bound_object (JObject j # args) =
     (if bound_object then None else bind_all True args)"
| "bind_all bound_object (v # args) =
     (case bind_value v of
        None \<Rightarrow> None
      | Some x \<Rightarrow> map_option (\<lambda>ws. x # ws) (bind_all bound_object args))"

definition bind_params :: "nat \<Rightarrow> jsval list \<Rightarrow> sqlval list option" where
  "bind_params param_count args =
     (case bind_all False args of
        None \<Rightarrow> None
      | Some vs \<Rightarrow> if length vs = param_count then Some vs else None)"

text \<open>Column affinities of the schema: \<open>description TEXT\<close>, and
  \<open>completed INTEGER\<close> and \<open>due_date TIMESTAMP\<close>, which both convert a value
  as NUMERIC affinity does.\<close>

definition text_affinity :: "engine \<Rightarrow> sqlval \<Rightarrow> sqlval" where
  "text_affinity E v = (case v of SNum q \<Rightarrow> SText (num_text E q) | _ \<Rightarrow> v)"

definition numeric_affinity :: "engine \<Rightarrow> sqlval \<Rightarrow> sqlval" where
  "numeric_affinity E v =
     (case v of
        SText s \<Rightarrow> (case text_numeric E s of Some q \<Rightarrow> SNum q | None \<Rightarrow> SText s)
      | _ \<Rightarrow> v)"

text \<open>
  A row of \<open>items\<close>. \<open>name\<close> is always bound from a trimmed string (the first
  argument of every write is one, so the first parameter is). \<open>created_at\<close> and
  \<open>updated_at\<close> hold \<open>CURRENT_TIMESTAMP\<close>, a text \<open>YYYY-MM-DD HH:MM:SS\<close> whose
  order is the order of time; they are modelled as the number of seconds.
\<close>

record item =
  item_id :: int
  name :: string
  description :: sqlval
  completed :: sqlval
  due_date :: sqlval
  created_at :: nat
  updated_at :: nat

text \<open>The table in rowid order, and the \<open>sqlite_sequence\<close> entry that
  \<open>AUTOINCREMENT\<close> keeps: the largest id ever assigned.\<close>

record store =
  items :: "item list"
  seq :: int

definition next_rowid :: "store \<Rightarrow> int" where
  "next_rowid st = foldr max (map item_id (items st)) (seq st) + 1"

text \<open>\<open>SELECT * FROM items WHERE id = ?\<close> with a number (the
  \<open>lastInsertRowid\<close>) and with the text of the route parameter, which SQLite
  converts under the column's affinity before comparing.\<close>

definition select_rowid :: "store \<Rightarrow> int \<Rightarrow> item option" where
  "select_rowid st i = find (\<lambda>r. item_id r = i) (items st)"

definition id_matches :: "engine \<Rightarrow> string \<Rightarrow> item \<Rightarrow> bool" where
  "id_matches E idtxt r =
     (case text_numeric E idtxt of Some q \<Rightarrow> of_int (item_id r) = q | None \<Rightarrow> False)"

definition select_id :: "engine \<Rightarrow> store \<Rightarrow> string \<Rightarrow> item option" where
  "select_id E st idtxt = find (id_matches E idtxt) (items st)"

subsection \<open>Request bodies and validation\<close>

record body =
  req_name :: jsval
  req_description :: jsval
  req_completed :: jsval
  req_due_date :: jsval

text \<open>The route parameter check \<open>!id || isNaN(parseInt(id))\<close>.\<close>

definition invalid_id :: "string \<Rightarrow> bool" where
  "invalid_id idtxt = (idtxt = [] \<or> parseInt idtxt = None)"

text \<open>The validation block that POST and PUT share word for word; \<open>None\<close> when
  every check passes.\<close>

definition validate :: "engine \<Rightarrow> body \<Rightarrow> error option" where
  "validate E b =
     (case req_name b of
        JStr s \<Rightarrow>
          if s = [] \<or> trim s = [] then Some NameRequired
          else if length (trim s) > 200 then Some NameTooLong
          else if truthy (req_due_date b) \<and> req_due_date b \<noteq> JNull
                  \<and> \<not> date_valid E (req_due_date b)
               then Some InvalidDueDate
          else None
      | _ \<Rightarrow> Some NameRequired)"

definition name_text :: "jsval \<Rightarrow> string" where
  "name_text v = (case v of JStr s \<Rightarrow> s | _ \<Rightarrow> [])"

subsection \<open>POST /api/items\<close>

text \<open>The arguments of \<open>stmt.run(name.trim(), description || null, 0, due_date || null)\<close>.\<close>

definition create_args :: "body \<Rightarrow> jsval list" where
  "create_args b =
     [JStr (trim (name_text (req_name b))), or_null (req_description b), JNum 0,
      or_null (req_due_date b)]"

text \<open>The row that \<open>INSERT INTO items (name, description, completed, due_date)
  VALUES (?, ?, ?, ?)\<close> writes from the four values bound, \<open>n\<close> being the trimmed
  name; \<open>now\<close> is the clock reading that \<open>CURRENT_TIMESTAMP\<close> gives.\<close>

definition inserted_row :: "engine \<Rightarrow> nat \<Rightarrow> int \<Rightarrow> string \<Rightarrow> sqlval list \<Rightarrow> item" where
  "inserted_row E now i n vs =
     \<lparr>item_id = i, name = n, description = text_affinity E (vs ! 1),
      completed = numeric_affinity E (vs ! 2), due_date = numeric_affinity E (vs ! 3),
      created_at = now, updated_at = now\<rparr>"

text \<open>The response is the row that the final SELECT finds.\<close>

definition create :: "engine \<Rightarrow> nat \<Rightarrow> body \<Rightarrow> store \<Rightarrow> (error + item option) \<times> store" where
  "create E now b st =
     (case validate E b of
        Some e \<Rightarrow> (Inl e, st)
      | None \<Rightarrow>
          (case bind_params 4 (create_args b) of
             None \<Rightarrow> (Inl (StoreFailure ''Failed to create item''), st)
           | Some vs \<Rightarrow>
               (let i = next_rowid st;
                    r = inserted_row E now i (trim (name_text (req_name b))) vs;
                    st' = \<lparr>items = items st @ [r], seq = i\<rparr>
                in (Inr (select_rowid st' i), st'))))"

subsection \<open>GET /api/items/:id\<close>

definition getById :: "engine \<Rightarrow> string \<Rightarrow> store \<Rightarrow> error + item" where
  "getById E idtxt st =
     (if invalid_id idtxt then Inl InvalidId
      else case select_id E st idtxt of None \<Rightarrow> Inl NotFound | Some r \<Rightarrow> Inr r)"

subsection \<open>PUT /api/items/:id\<close>

definition completedValue :: "body \<Rightarrow> rat" where
  "completedValue b =
     (if req_completed b = JBool True \<or> req_completed b = JNum 1 then 1 else 0)"

text \<open>The arguments of \<open>stmt.run(name.trim(), description || null, completedValue,
  due_date || null, id)\<close>.\<close>

definition update_args :: "body \<Rightarrow> string \<Rightarrow> jsval list" where
  "update_args b idtxt =
     [JStr (trim (name_text (req_name b))), or_null (req_description b),
      JNum (completedValue b), or_null (req_due_date b), JStr idtxt]"

text \<open>What \<open>UPDATE items SET name = ?, description = ?, completed = ?, due_date = ?,
  updated_at = CURRENT_TIMESTAMP WHERE id = ?\<close> makes of a row that the id selects, from
  the five values bound; the first is the trimmed name \<open>n\<close> and the last the id.\<close>

definition updated_row :: "engine \<Rightarrow> nat \<Rightarrow> string \<Rightarrow> sqlval list \<Rightarrow> item \<Rightarrow> item" where
  "updated_row E now n vs r =
     r\<lparr>name := n, description := text_affinity E (vs ! 1),
       completed := numeric_affinity E (vs ! 2), due_date := numeric_affinity E (vs ! 3),
       updated_at := now\<rparr>"

definition update :: "engine \<Rightarrow> nat \<Rightarrow> string \<Rightarrow> body \<Rightarrow> store \<Rightarrow> (error + item option) \<times> store" where
  "update E now idtxt b st =
     (if invalid_id idtxt then (Inl InvalidId, st)
      else case select_id E st idtxt of
        None \<Rightarrow> (Inl NotFound, st)
      | Some existingItem \<Rightarrow>
          (case validate E b of
             Some e \<Rightarrow> (Inl e, st)
           | None \<Rightarrow>
               (case bind_params 5 (update_args b idtxt) of
                  None \<Rightarrow> (Inl (StoreFailure ''Failed to update item''), st)
                | Some vs \<Rightarrow>
                    (let st' = st\<lparr>items :=
                           map (\<lambda>r. if id_matches E idtxt r
                                     then updated_row E now (trim (name_text (req_name b))) vs r
                                     else r) (items st)\<rparr>
                     in (Inr (select_id E st' idtxt), st')))))"

subsection \<open>PATCH /api/items/:id\<close>

text \<open>\<open>existingItem.completed === 1 ? 0 : 1\<close>, then \<open>stmt.run(newCompletedValue, id)\<close>
  with two values that bind as they are.\<close>

definition toggleCompleted :: "engine \<Rightarrow> nat \<Rightarrow> string \<Rightarrow> store \<Rightarrow> (error + item option) \<times> store" where
  "toggleCompleted E now idtxt st =
     (if invalid_id idtxt then (Inl InvalidId, st)
      else case select_id E st idtxt of
        None \<Rightarrow> (Inl NotFound, st)
      | Some existingItem \<Rightarrow>
          (let newCompletedValue = (if completed existingItem = SNum 1 then 0 else 1 :: rat);
               st' = st\<lparr>items :=
                      map (\<lambda>r. if id_matches E idtxt r
                                then r\<lparr>completed := SNum newCompletedValue, updated_at := now\<rparr>
                                else r) (items st)\<rparr>
           in (Inr (select_id E st' idtxt), st')))"

subsection \<open>DELETE /api/items/:id\<close>

text \<open>The success response carries \<open>parseInt(id)\<close>; \<open>result.changes\<close> is the
  number of rows that the DELETE removed.\<close>

definition delete :: "engine \<Rightarrow> string \<Rightarrow> store \<Rightarrow> (error + int option) \<times> store" where
  "delete E idtxt st =
     (if invalid_id idtxt then (Inl InvalidId, st)
      else case select_id E st idtxt of
        None \<Rightarrow> (Inl NotFound, st)
      | Some existingItem \<Rightarrow>
          (let changes = length (filter (id_matches E idtxt) (items st));
               st' = st\<lparr>items := filter (\<lambda>r. \<not> id_matches E idtxt r) (items st)\<rparr>
           in if changes > 0 then (Inr (parseInt idtxt), st') else (Inl NotFound, st')))"

subsection \<open>GET /api/items: the sort clause\<close>

text \<open>
  \<open>getSortClause\<close> builds the text of an ORDER BY clause; here the clause is a list
  of terms. \<open>validSorts[sort]\<close> is a property read on an object literal, so a
  \<open>sort\<close> that names a member of \<open>Object.prototype\<close> reads that member, which is
  truthy and is not a column: \<open>Inherited\<close>.
\<close>

datatype field = Due_date | Name | Created_at | Inherited

datatype direction = ASC | DESC

datatype order_term = Is_null field | By field direction

definition object_prototype_members :: "string list" where
  "object_prototype_members =
     [''constructor'', ''__defineGetter__'', ''__defineSetter__'', ''hasOwnProperty'',
      ''__lookupGetter__'', ''__lookupSetter__'', ''isPrototypeOf'',
      ''propertyIsEnumerable'', ''toString'', ''valueOf'', ''__proto__'',
      ''toLocaleString'']"

definition validSorts :: "string \<Rightarrow> field option" where
  "validSorts k =
     (if k = ''date'' then Some Due_date
      else if k = ''name'' then Some Name
      else if k = ''created'' then Some Created_at
      else if k \<in> set object_prototype_members then Some Inherited
      else None)"

text \<open>A query parameter is absent (\<open>None\<close>) or a string; a repeated or
  bracketed parameter, which Express parses to an array or an object, is not
  modelled.\<close>

definition getSortClause :: "string option \<Rightarrow> string option \<Rightarrow> order_term list" where
  "getSortClause sort_param order_param =
     (let sortField =
            (case sort_param of
               None \<Rightarrow> Created_at
             | Some k \<Rightarrow> (case validSorts k of Some f \<Rightarrow> f | None \<Rightarrow> Created_at));
          sortOrder = (if order_param = Some ''asc'' then ASC else DESC)
      in if sortField = Due_date then [Is_null sortField, By sortField sortOrder]
         else [By sortField sortOrder])"

subsection \<open>GET /api/items: how SQLite orders rows\<close>

datatype ordering = LT | EQ | GT

text \<open>The default collation BINARY compares texts unit by unit (\<open>memcmp\<close>), a
  proper prefix first.\<close>

fun cmp_text :: "string \<Rightarrow> string \<Rightarrow> ordering" where
  "cmp_text [] [] = EQ"
| "cmp_text [] (y # ys) = LT"
| "cmp_text (x # xs) [] = GT"
| "cmp_text (x # xs) (y # ys) =
     (if (of_char x :: nat) < of_char y then LT
      else if (of_char y :: nat) < of_char x then GT
      else cmp_text xs ys)"

definition cmp_num :: "'a::linorder \<Rightarrow> 'a \<Rightarrow> ordering" where
  "cmp_num x y = (if x < y then LT else if y < x then GT else EQ)"

text \<open>NULL sorts before every number, and every number before every text.\<close>

fun cmp_sql :: "sqlval \<Rightarrow> sqlval \<Rightarrow> ordering" where
  "cmp_sql SNull SNull = EQ"
| "cmp_sql SNull _ = LT"
| "cmp_sql _ SNull = GT"
| "cmp_sql (SNum p) (SNum q) = cmp_num p q"
| "cmp_sql (SNum p) (SText t) = LT"
| "cmp_sql (SText s) (SNum q) = GT"
| "cmp_sql (SText s) (SText t) = cmp_text s t"

fun cmp_field :: "field \<Rightarrow> item \<Rightarrow> item \<Rightarrow> ordering" where
  "cmp_field Due_date a b = cmp_sql (due_date a) (due_date b)"
| "cmp_field Name a b = cmp_text (name a) (name b)"
| "cmp_field Created_at a b = cmp_num (created_at a) (created_at b)"
| "cmp_field Inherited a b = EQ"

fun is_null :: "field \<Rightarrow> item \<Rightarrow> bool" where
  "is_null Due_date a = (due_date a = SNull)"
| "is_null _ a = False"

text \<open>\<open>f IS NULL\<close> is 0 or 1 and sorts ascending; \<open>DESC\<close> reverses the
  comparison of the column.\<close>

fun cmp_term :: "order_term \<Rightarrow> item \<Rightarrow> item \<Rightarrow> ordering" where
  "cmp_term (Is_null f) a b = cmp_num (is_null f a) (is_null f b)"
| "cmp_term (By f ASC) a b = cmp_field f a b"
| "cmp_term (By f DESC) a b = cmp_field f b a"

text \<open>The first term that tells two rows apart decides.\<close>

fun cmp_clause :: "order_term list \<Rightarrow> item \<Rightarrow> item \<Rightarrow> ordering" where
  "cmp_clause [] a b = EQ"
| "cmp_clause (t # ts) a b = (case cmp_term t a b of EQ \<Rightarrow> cmp_clause ts a b | c \<Rightarrow> c)"

text \<open>\<open>SELECT * FROM items ORDER BY clause\<close>: the rows sorted by the clause. SQL
  leaves the order of rows that compare equal open; the model keeps them in table
  order (a stable insertion sort).\<close>

fun insert_row :: "order_term list \<Rightarrow> item \<Rightarrow> item list \<Rightarrow> item list" where
  "insert_row cl x [] = [x]"
| "insert_row cl x (y # ys) =
     (if cmp_clause cl x y \<noteq> GT then x # y # ys else y # insert_row cl x ys)"

definition order_by :: "order_term list \<Rightarrow> item list \<Rightarrow> item list" where
  "order_by cl rows = foldr (insert_row cl) rows []"

text \<open>Preparing the statement throws when the clause is not SQL over the table's
  columns, which is what the text of an inherited member gives.\<close>

fun term_field :: "order_term \<Rightarrow> field" where
  "term_field (Is_null f) = f"
| "term_field (By f d) = f"

definition select_ordered :: "order_term list \<Rightarrow> store \<Rightarrow> error + item list" where
  "select_ordered cl st =
     (if Inherited \<in> set (map term_field cl) then Inl (StoreFailure ''Failed to fetch items'')
      else Inr (order_by cl (items st)))"

subsection \<open>GET /api/items: filter and search\<close>

text \<open>A stored description is NULL or a text: the column's affinity turns a number
  into text.\<close>

definition matches_search :: "string \<Rightarrow> item \<Rightarrow> bool" where
  "matches_search searchLower r =
     (let nameMatch = (name r \<noteq> [] \<and> includes_str (toLowerCase (name r)) searchLower);
          descMatch = (case description r of
                         SText d \<Rightarrow> d \<noteq> [] \<and> includes_str (toLowerCase d) searchLower
                       | _ \<Rightarrow> False)
      in nameMatch \<or> descMatch)"

definition applyFilters :: "item list \<Rightarrow> string option \<Rightarrow> string option \<Rightarrow> item list" where
  "applyFilters rows filter_param search_param =
     (let filtered =
            (if filter_param = Some ''complete'' then filter (\<lambda>r. completed r = SNum 1) rows
             else if filter_param = Some ''incomplete'' then filter (\<lambda>r. completed r = SNum 0) rows
             else rows)
      in case search_param of
           None \<Rightarrow> filtered
         | Some search \<Rightarrow>
             if search \<noteq> [] \<and> trim search \<noteq> []
             then filter (matches_search (toLowerCase (trim search))) filtered
             else filtered)"

record query =
  sort_param :: "string option"
  order_param :: "string option"
  filter_param :: "string option"
  search_param :: "string option"

definition list_items :: "query \<Rightarrow> store \<Rightarrow> error + item list" where
  "list_items q st =
     (case select_ordered (getSortClause (sort_param q) (order_param q)) st of
        Inl e \<Rightarrow> Inl e
      | Inr rows \<Rightarrow> Inr (applyFilters rows (filter_param q) (search_param q)))"

subsection \<open>The server's states\<close>

text \<open>
  At start-up the table is created and three sample rows are inserted, each with its
  own reading of the clock; \<open>d1\<close> and \<open>d3\<close> are the ISO texts of their due dates
  (two days ahead and one day back).
\<close>

definition initial_store :: "engine \<Rightarrow> nat \<Rightarrow> nat \<Rightarrow> nat \<Rightarrow> string \<Rightarrow> string \<Rightarrow> store" where
  "initial_store E t1 t2 t3 d1 d3 =
     \<lparr>items =
        [\<lparr>item_id = 1, name = ''Sample Task 1'',
          description = SText ''This is a sample task'', completed = SNum 0,
          due_date = numeric_affinity E (SText d1), created_at = t1, updated_at = t1\<rparr>,
         \<lparr>item_id = 2, name = ''Sample Task 2'',
          description = SText ''Another sample task'', completed = SNum 1,
          due_date = SNull, created_at = t2, updated_at = t2\<rparr>,
         \<lparr>item_id = 3, name = ''Sample Task 3'',
          description = SText ''Very important task'', completed = SNum 0,
          due_date = numeric_affinity E (SText d3), created_at = t3, updated_at = t3\<rparr>],
      seq = 3\<rparr>"


subsection \<open>Auxiliary notions for the proofs and examples\<close>

fun flip :: "ordering \<Rightarrow> ordering" where
  "flip LT = GT"
| "flip EQ = EQ"
| "flip GT = LT"

text \<open>A comparison function that is a total preorder.\<close>

definition weak_cmp :: "('a \<Rightarrow> 'a \<Rightarrow> ordering) \<Rightarrow> bool" where
  "weak_cmp f \<longleftrightarrow>
     (\<forall>a b. f b a = flip (f a b)) \<and>
     (\<forall>a b c. f a b \<noteq> GT \<longrightarrow> f b c \<noteq> GT \<longrightarrow> f a c \<noteq> GT)"

text \<open>The case-insensitive comparison of names that the specification and the
  backend's own test of the name sort speak of: the comparison of the lower-cased
  names.\<close>

definition cmp_nocase :: "string \<Rightarrow> string \<Rightarrow> ordering" where
  "cmp_nocase s t = cmp_text (toLowerCase s) (toLowerCase t)"

text \<open>
  An instance of the platform for evaluating the handlers on concrete requests.
  \<^item> A string is a valid date when it starts with \<open>dddd-dd-dd\<close> and either ends
    there or goes on with \<open>T\<close> (the shape of \<open>toISOString\<close>), or when it is a month
    name, a day and a year as in \<open>Jan 1,2024\<close>. A number is a valid date up to the
    largest time value; \<open>null\<close> and the booleans convert to numbers. An array is
    converted to the text of its elements joined by commas.
  \<^item> A text is numeric when it is a non-empty run of decimal digits.
  \<^item> A whole number is rendered as a text with one decimal place (\<open>5.0\<close>); the
    examples bind no other number to a text column.
\<close>

definition is_digit :: "char \<Rightarrow> bool" where
  "is_digit c = (digit_val 10 c \<noteq> None)"

fun nat_digits :: "nat \<Rightarrow> string" where
  "nat_digits n =
     (if n < 10 then [char_of (48 + n)] else nat_digits (n div 10) @ [char_of (48 + n mod 10)])"

definition iso_date_text :: "string \<Rightarrow> bool" where
  "iso_date_text s =
     (10 \<le> length s \<and> list_all is_digit (take 4 s) \<and> s ! 4 = CHR ''-''
      \<and> list_all is_digit (take 2 (drop 5 s)) \<and> s ! 7 = CHR ''-''
      \<and> list_all is_digit (take 2 (drop 8 s))
      \<and> (length s = 10 \<or> s ! 10 = CHR ''T''))"

definition month_day_year_text :: "string \<Rightarrow> bool" where
  "month_day_year_text s =
     (let d = takeWhile is_digit (drop 4 s); y = drop (4 + length d) s
      in take 3 s \<in> set [''Jan'', ''Feb'', ''Mar'', ''Apr'', ''May'', ''Jun'', ''Jul'', ''Aug'',
                           ''Sep'', ''Oct'', ''Nov'', ''Dec'']
         \<and> take 1 (drop 3 s) = '' '' \<and> d \<noteq> [] \<and> length d \<le> 2
         \<and> take 1 y = '','' \<and> length (drop 1 y) = 4 \<and> list_all is_digit (drop 1 y))"

definition element_text :: "jsval \<Rightarrow> string" where
  "element_text v =
     (case v of
        JStr s \<Rightarrow> s
      | JNum q \<Rightarrow> (case quotient_of q of (n, d) \<Rightarrow> if d = 1 \<and> 0 \<le> n then nat_digits (nat n) else [])
      | _ \<Rightarrow> [])"

fun join_comma :: "string list \<Rightarrow> string" where
  "join_comma [] = []"
| "join_comma [s] = s"
| "join_comma (s # t # ts) = s @ '','' @ join_comma (t # ts)"

definition sample_date_valid :: "jsval \<Rightarrow> bool" where
  "sample_date_valid v =
     (case v of
        JStr s \<Rightarrow> iso_date_text s \<or> month_day_year_text s
      | JNum q \<Rightarrow> \<bar>q\<bar> \<le> 8640000000000000
      | JBool b \<Rightarrow> True
      | JNull \<Rightarrow> True
      | JArray xs \<Rightarrow>
          iso_date_text (join_comma (map element_text xs))
          \<or> month_day_year_text (join_comma (map element_text xs))
      | _ \<Rightarrow> False)"

definition sample_text_numeric :: "string \<Rightarrow> rat option" where
  "sample_text_numeric s =
     (if s \<noteq> [] \<and> list_all is_digit s then Some (of_nat (digits_value 10 s)) else None)"

definition sample_num_text :: "rat \<Rightarrow> string" where
  "sample_num_text q =
     (case quotient_of q of
        (n, d) \<Rightarrow>
          if d = 1 then (if n < 0 then ''-'' else []) @ nat_digits (nat \<bar>n\<bar>) @ ''.0''
          else [])"

definition sample_engine :: engine where
  "sample_engine =
     \<lparr>date_valid = sample_date_valid, text_numeric = sample_text_numeric,
      num_text = sample_num_text\<rparr>"

definition sample_store :: store where
  "sample_store =
     initial_store sample_engine 100 100 100 ''2024-01-03T00:00:00.000Z''
       ''2023-12-31T00:00:00.000Z''"

definition plain_body :: "string \<Rightarrow> body" where
  "plain_body n =
     \<lparr>req_name = JStr n, req_description = JUndefined, req_completed = JUndefined,
      req_due_date = JUndefined\<rparr>"

text \<open>A value that is neither an array nor an object.\<close>

definition is_scalar :: "jsval \<Rightarrow> bool" where
  "is_scalar v = (case v of JArray xs \<Rightarrow> False | JObject j \<Rightarrow> False | _ \<Rightarrow> True)"

text \<open>The body \<open>{"name": n, "description": [], "due_date": ["Jan 1", 2024]}\<close>.\<close>

definition array_body :: "string \<Rightarrow> body" where
  "array_body n =
     \<lparr>req_name = JStr n, req_description = JArray [], req_completed = JUndefined,
      req_due_date = JArray [JStr ''Jan 1'', JNum 2024]\<rparr>"

section \<open>Properties\<close>

subsection \<open>The comparisons are total preorders\<close>

lemma cmp_text_flip: "cmp_text b a = flip (cmp_text a b)"
  by (induction a b rule: cmp_text.induct) auto

lemma cmp_text_trans:
  "cmp_text a b \<noteq> GT \<Longrightarrow> cmp_text b c \<noteq> GT \<Longrightarrow> cmp_text a c \<noteq> GT"
proof (induction a b arbitrary: c rule: cmp_text.induct)
  case 1 then show ?case by simp
next
  case (2 y ys) then show ?case by (cases c) simp_all
next
  case (3 x xs) then show ?case by simp
next
  case (4 x xs y ys)
  show ?case
  proof (cases c)
    case Nil
    with 4(3) show ?thesis by simp
  next
    case (Cons z zs)
    have xy: "\<not> (of_char y :: nat) < of_char x"
      using 4(2) by (simp split: if_splits)
    have yz: "\<not> (of_char z :: nat) < of_char y"
      using 4(3) Cons by (simp split: if_splits)
    show ?thesis
    proof (cases "(of_char x :: nat) < of_char z")
      case True
      then show ?thesis using Cons by simp
    next
      case False
      with xy yz have e1: "(of_char x :: nat) = of_char y" and e2: "(of_char y :: nat) = of_char z"
        by linarith+
      have a: "cmp_text xs ys \<noteq> GT" using 4(2) e1 by simp
      have b: "cmp_text ys zs \<noteq> GT" using 4(3) Cons e2 by simp
      have "cmp_text xs zs \<noteq> GT" using "4.IH" [OF _ _ a b] e1 by simp
      then show ?thesis using Cons e1 e2 by simp
    qed
  qed
qed

lemma weak_cmp_text: "weak_cmp cmp_text"
  unfolding weak_cmp_def using cmp_text_flip cmp_text_trans by blast

lemma weak_cmp_num: "weak_cmp (cmp_num :: 'a::linorder \<Rightarrow> 'a \<Rightarrow> ordering)"
  unfolding weak_cmp_def cmp_num_def by auto

lemma cmp_sql_flip: "cmp_sql b a = flip (cmp_sql a b)"
  by (cases a; cases b) (simp_all add: cmp_num_def cmp_text_flip [symmetric])

lemma cmp_sql_trans:
  "cmp_sql a b \<noteq> GT \<Longrightarrow> cmp_sql b c \<noteq> GT \<Longrightarrow> cmp_sql a c \<noteq> GT"
proof -
  assume ab: "cmp_sql a b \<noteq> GT" and bc: "cmp_sql b c \<noteq> GT"
  show ?thesis
  proof (cases a)
    case SNull
    then show ?thesis by (cases c) simp_all
  next
    case (SNum p)
    with ab bc show ?thesis
      by (cases b; cases c) (simp_all add: cmp_num_def split: if_splits)
  next
    case (SText s)
    with ab obtain t where b: "b = SText t" by (cases b) simp_all
    with bc obtain u where c: "c = SText u" by (cases c) simp_all
    from ab bc show ?thesis unfolding SText b c using cmp_text_trans [of s t u] by simp
  qed
qed

lemma weak_cmp_sql: "weak_cmp cmp_sql"
  unfolding weak_cmp_def using cmp_sql_flip cmp_sql_trans by blast

lemma weak_cmp_key: "weak_cmp f \<Longrightarrow> weak_cmp (\<lambda>a b. f (k a) (k b))"
  unfolding weak_cmp_def by blast

lemma weak_cmp_EQ: "weak_cmp (\<lambda>a b. EQ)"
  unfolding weak_cmp_def by simp

lemma flip_flip: "flip (flip c) = c"
  by (cases c) simp_all

lemma flip_GT: "flip c = GT \<longleftrightarrow> c = LT"
  by (cases c) simp_all

lemma flip_LT: "flip c = LT \<longleftrightarrow> c = GT"
  by (cases c) simp_all

lemma flip_EQ: "flip c = EQ \<longleftrightarrow> c = EQ"
  by (cases c) simp_all

lemma weak_cmpD1: "weak_cmp f \<Longrightarrow> f a b = flip (f b a)"
  unfolding weak_cmp_def by blast

lemma weak_cmpD2: "weak_cmp f \<Longrightarrow> f a b \<noteq> GT \<Longrightarrow> f b c \<noteq> GT \<Longrightarrow> f a c \<noteq> GT"
  unfolding weak_cmp_def by blast

lemma weak_cmp_swap: assumes "weak_cmp f" shows "weak_cmp (\<lambda>a b. f b a)"
  unfolding weak_cmp_def
proof (intro conjI allI impI)
  fix a b show "f a b = flip (f b a)" by (rule weak_cmpD1 [OF assms])
next
  fix a b c assume "f b a \<noteq> GT" "f c b \<noteq> GT"
  show "f c a \<noteq> GT" using weak_cmpD2 [OF assms \<open>f c b \<noteq> GT\<close> \<open>f b a \<noteq> GT\<close>] .
qed

lemma weak_cmp_refl: "weak_cmp f \<Longrightarrow> f a a = EQ"
  using weak_cmpD1 [of f a a] by (cases "f a a") simp_all

lemma weak_cmp_lex:
  assumes f: "weak_cmp f" and g: "weak_cmp g"
  shows "weak_cmp (\<lambda>a b. case f a b of EQ \<Rightarrow> g a b | c \<Rightarrow> c)"
  unfolding weak_cmp_def
proof (intro conjI allI impI)
  fix a b
  show "(case f b a of EQ \<Rightarrow> g b a | c \<Rightarrow> c) = flip (case f a b of EQ \<Rightarrow> g a b | c \<Rightarrow> c)"
    using weak_cmpD1 [OF f, of b a] weak_cmpD1 [OF g, of b a]
    by (cases "f a b") simp_all
next
  fix a b c
  assume ab: "(case f a b of EQ \<Rightarrow> g a b | c \<Rightarrow> c) \<noteq> GT"
    and bc: "(case f b c of EQ \<Rightarrow> g b c | c \<Rightarrow> c) \<noteq> GT"
  have fab: "f a b \<noteq> GT" using ab by (cases "f a b") simp_all
  have fbc: "f b c \<noteq> GT" using bc by (cases "f b c") simp_all
  have fac: "f a c \<noteq> GT" by (rule weak_cmpD2 [OF f fab fbc])
  show "(case f a c of EQ \<Rightarrow> g a c | c \<Rightarrow> c) \<noteq> GT"
  proof (cases "f a c")
    case LT then show ?thesis by simp
  next
    case GT with fac show ?thesis by simp
  next
    case EQ
    then have ca: "f c a \<noteq> GT" using weak_cmpD1 [OF f, of c a] by simp
    have "f b a \<noteq> GT" by (rule weak_cmpD2 [OF f fbc ca])
    then have e1: "f a b = EQ" using fab weak_cmpD1 [OF f, of b a] by (cases "f a b") simp_all
    have "f c b \<noteq> GT" by (rule weak_cmpD2 [OF f ca fab])
    then have e2: "f b c = EQ" using fbc weak_cmpD1 [OF f, of c b] by (cases "f b c") simp_all
    from ab e1 have "g a b \<noteq> GT" by simp
    moreover from bc e2 have "g b c \<noteq> GT" by simp
    ultimately have "g a c \<noteq> GT" by (rule weak_cmpD2 [OF g])
    with EQ show ?thesis by simp
  qed
qed

lemma weak_cmp_field: "weak_cmp (cmp_field f)"
proof (cases f)
  case Due_date
  have "cmp_field Due_date = (\<lambda>a b. cmp_sql (due_date a) (due_date b))" by (intro ext) simp
  then show ?thesis using weak_cmp_key [OF weak_cmp_sql, of due_date] Due_date by simp
next
  case Name
  have "cmp_field Name = (\<lambda>a b. cmp_text (name a) (name b))" by (intro ext) simp
  then show ?thesis using weak_cmp_key [OF weak_cmp_text, of name] Name by simp
next
  case Created_at
  have "cmp_field Created_at = (\<lambda>a b. cmp_num (created_at a) (created_at b))" by (intro ext) simp
  then show ?thesis using weak_cmp_key [OF weak_cmp_num, of created_at] Created_at by simp
next
  case Inherited
  have "cmp_field Inherited = (\<lambda>a b. EQ)" by (intro ext) simp
  then show ?thesis using weak_cmp_EQ Inherited by simp
qed

lemma weak_cmp_term: "weak_cmp (cmp_term t)"
proof (cases t)
  case (Is_null f)
  have "cmp_term (Is_null f) = (\<lambda>a b. cmp_num (is_null f a) (is_null f b))" by (intro ext) simp
  then show ?thesis using weak_cmp_key [OF weak_cmp_num, of "is_null f"] Is_null by simp
next
  case (By f d)
  show ?thesis
  proof (cases d)
    case ASC
    have "cmp_term (By f ASC) = cmp_field f" by (intro ext) simp
    then show ?thesis using weak_cmp_field By ASC by simp
  next
    case DESC
    have "cmp_term (By f DESC) = (\<lambda>a b. cmp_field f b a)" by (intro ext) simp
    then show ?thesis using weak_cmp_swap [OF weak_cmp_field, of f] By DESC by simp
  qed
qed

lemma weak_cmp_clause: "weak_cmp (cmp_clause cl)"
proof (induction cl)
  case Nil
  have "cmp_clause [] = (\<lambda>a b. EQ)" by (intro ext) simp
  then show ?case using weak_cmp_EQ by simp
next
  case (Cons t ts)
  have "cmp_clause (t # ts) = (\<lambda>a b. case cmp_term t a b of EQ \<Rightarrow> cmp_clause ts a b | c \<Rightarrow> c)"
    by (intro ext) simp
  then show ?case using weak_cmp_lex [OF weak_cmp_term Cons.IH, of t] by simp
qed

lemma mset_insert_row: "mset (insert_row cl x ys) = add_mset x (mset ys)"
  by (induction ys) simp_all

lemma mset_order_by: "mset (order_by cl rows) = mset rows"
  unfolding order_by_def by (induction rows) (simp_all add: mset_insert_row)

lemma set_insert_row: "set (insert_row cl x ys) = insert x (set ys)"
  using mset_insert_row [of cl x ys] by (metis set_mset_add_mset_insert set_mset_mset)

lemma sorted_insert_row:
  "sorted_wrt (\<lambda>a b. cmp_clause cl a b \<noteq> GT) ys \<Longrightarrow>
   sorted_wrt (\<lambda>a b. cmp_clause cl a b \<noteq> GT) (insert_row cl x ys)"
proof (induction ys)
  case Nil
  then show ?case by simp
next
  case (Cons y ys)
  note w = weak_cmp_clause [of cl]
  show ?case
  proof (cases "cmp_clause cl x y \<noteq> GT")
    case True
    have "cmp_clause cl x z \<noteq> GT" if "z \<in> set ys" for z
      using weak_cmpD2 [OF w True] Cons.prems that by simp
    with True Cons.prems show ?thesis by simp
  next
    case False
    then have "cmp_clause cl y x \<noteq> GT"
      using weak_cmpD1 [OF w, of y x] by simp
    with False Cons show ?thesis by (simp add: set_insert_row)
  qed
qed

lemma sorted_order_by: "sorted_wrt (\<lambda>a b. cmp_clause cl a b \<noteq> GT) (order_by cl rows)"
  unfolding order_by_def by (induction rows) (simp_all add: sorted_insert_row)

lemma sorted_applyFilters:
  "sorted_wrt R rows \<Longrightarrow> sorted_wrt R (applyFilters rows f s)"
  unfolding applyFilters_def Let_def by (simp add: sorted_wrt_filter split: option.splits)

lemma mset_applyFilters:
  "mset xs = mset ys \<Longrightarrow> mset (applyFilters xs f s) = mset (applyFilters ys f s)"
  unfolding applyFilters_def Let_def by (simp split: option.splits)

lemma date_clause:
  "getSortClause (Some ''date'') ord =
     [Is_null Due_date, By Due_date (if ord = Some ''asc'' then ASC else DESC)]"
  by (simp add: getSortClause_def validSorts_def)

lemma name_clause:
  "getSortClause (Some ''name'') ord = [By Name (if ord = Some ''asc'' then ASC else DESC)]"
  by (simp add: getSortClause_def validSorts_def)

lemma date_clause_le:
  assumes "cmp_clause [Is_null Due_date, By Due_date d] a b \<noteq> GT"
  shows "(due_date a = SNull \<longrightarrow> due_date b = SNull) \<and>
         (due_date a \<noteq> SNull \<and> due_date b \<noteq> SNull \<longrightarrow> cmp_term (By Due_date d) a b \<noteq> GT)"
  using assms by (auto simp: cmp_num_def split: if_splits ordering.splits)

subsection \<open>Binding\<close>

lemma bind_all_value:
  "bind_value v = Some x \<Longrightarrow> bind_all bo (v # args) = map_option (\<lambda>ws. x # ws) (bind_all bo args)"
  by (cases v) simp_all

lemma bind_all_scalar:
  "is_scalar v \<Longrightarrow>
   bind_all bo (v # args) =
     (case bind_value v of None \<Rightarrow> None | Some x \<Rightarrow> map_option (\<lambda>ws. x # ws) (bind_all bo args))"
  by (cases v) (simp_all add: is_scalar_def)

lemma bind_all_snoc:
  "bind_value v = Some x \<Longrightarrow>
   bind_all bo (args @ [v]) = map_option (\<lambda>ws. ws @ [x]) (bind_all bo args)"
proof (induction bo args rule: bind_all.induct)
  case (1 bo)
  then show ?case using bind_all_value [of v x bo "[]"] by simp
next
  case (2 bo xs args)
  then show ?case by (simp add: option.map_comp comp_def split: option.splits)
next
  case (3 bo j args)
  then show ?case by simp
qed (simp_all add: option.map_comp comp_def split: option.splits)

lemma is_scalar_or_null: "is_scalar v \<Longrightarrow> is_scalar (or_null v)"
  by (cases v) (simp_all add: is_scalar_def or_null_def)

lemma bind_value_or_null_str:
  "bind_value (or_null (JStr s)) = Some (if s = [] then SNull else SText s)"
  by (simp add: or_null_def)

lemma bind_first_three:
  assumes "bind_all False (JStr n # d # JNum c # rest) = Some vs"
    and "bind_value d = Some x"
  shows "\<exists>ws. vs = SText n # x # SNum c # ws"
proof -
  have 1: "bind_all False (JStr n # d # JNum c # rest)
      = map_option (\<lambda>ws. SText n # ws) (bind_all False (d # JNum c # rest))"
    by (rule bind_all_value) simp
  have 2: "bind_all False (d # JNum c # rest)
      = map_option (\<lambda>ws. x # ws) (bind_all False (JNum c # rest))"
    by (rule bind_all_value [OF assms(2)])
  have 3: "bind_all False (JNum c # rest)
      = map_option (\<lambda>ws. SNum c # ws) (bind_all False rest)"
    by (rule bind_all_value) simp
  from assms(1) have "map_option (\<lambda>ws. SText n # ws) (map_option (\<lambda>ws. x # ws)
      (map_option (\<lambda>ws. SNum c # ws) (bind_all False rest))) = Some vs"
    by (simp only: 1 2 3)
  then show ?thesis by auto
qed

lemma create_bind_description:
  assumes "bind_params 4 (create_args b) = Some vs"
    and "bind_value (or_null (req_description b)) = Some x"
  shows "vs ! 1 = x \<and> vs ! 2 = SNum 0"
proof -
  from assms(1) have "bind_all False (create_args b) = Some vs"
    by (auto simp: bind_params_def split: option.splits if_splits)
  then obtain ws where "vs = SText (trim (name_text (req_name b))) # x # SNum 0 # ws"
    unfolding create_args_def using bind_first_three [OF _ assms(2)] by blast
  then show ?thesis by simp
qed

lemma update_bind_description:
  assumes "bind_params 5 (update_args b idtxt) = Some vs"
    and "bind_value (or_null (req_description b)) = Some x"
  shows "vs ! 1 = x \<and> vs ! 2 = SNum (completedValue b)"
proof -
  from assms(1) have "bind_all False (update_args b idtxt) = Some vs"
    by (auto simp: bind_params_def split: option.splits if_splits)
  then obtain ws where "vs = SText (trim (name_text (req_name b))) # x # SNum (completedValue b) # ws"
    unfolding update_args_def using bind_first_three [OF _ assms(2)] by blast
  then show ?thesis by simp
qed

lemma create_bind_due_date:
  assumes "bind_params 4 (create_args b) = Some vs"
    and "bind_value (or_null (req_due_date b)) = Some x"
  shows "vs ! 3 = x"
proof -
  let ?front = "[JStr (trim (name_text (req_name b))), or_null (req_description b), JNum 0]"
  from assms(1) have a: "bind_all False (create_args b) = Some vs" and l: "length vs = 4"
    by (auto simp: bind_params_def split: option.splits if_splits)
  have e: "create_args b = ?front @ [or_null (req_due_date b)]"
    by (simp add: create_args_def)
  from a have "map_option (\<lambda>ws. ws @ [x]) (bind_all False ?front) = Some vs"
    by (simp only: e bind_all_snoc [OF assms(2)])
  then obtain ws where "vs = ws @ [x]" by auto
  with l show ?thesis by (simp add: nth_append)
qed

lemma update_bind_due_date:
  assumes "bind_params 5 (update_args b idtxt) = Some vs"
    and "bind_value (or_null (req_due_date b)) = Some x"
  shows "vs ! 3 = x"
proof -
  let ?front = "[JStr (trim (name_text (req_name b))), or_null (req_description b),
      JNum (completedValue b)]"
  from assms(1) have a: "bind_all False (update_args b idtxt) = Some vs" and l: "length vs = 5"
    by (auto simp: bind_params_def split: option.splits if_splits)
  have e: "update_args b idtxt = (?front @ [or_null (req_due_date b)]) @ [JStr idtxt]"
    by (simp add: update_args_def)
  have i: "bind_value (JStr idtxt) = Some (SText idtxt)" by simp
  from a have "map_option (\<lambda>ws. ws @ [SText idtxt])
      (map_option (\<lambda>ws. ws @ [x]) (bind_all False ?front)) = Some vs"
    by (simp only: e bind_all_snoc [OF i] bind_all_snoc [OF assms(2)])
  then obtain ws where "vs = (ws @ [x]) @ [SText idtxt]" by auto
  with l show ?thesis by (simp add: nth_append)
qed

subsection \<open>What the writing handlers return\<close>

lemma parseInt_empty: "parseInt [] = None"
  by (simp add: parseInt_def)

lemma invalid_id_iff: "invalid_id idtxt \<longleftrightarrow> parseInt idtxt = None"
  using parseInt_empty by (auto simp: invalid_id_def)

lemma valid_idI: "parseInt idtxt \<noteq> None \<Longrightarrow> \<not> invalid_id idtxt"
  by (simp only: invalid_id_iff not_False_eq_True)

lemma find_map_upd:
  assumes "\<And>r. P (f r) = P r"
  shows "find P (map (\<lambda>r. if P r then f r else r) xs) = map_option f (find P xs)"
  by (induction xs) (simp_all add: assms)

lemma find_append:
  "find P (xs @ ys) = (case find P xs of None \<Rightarrow> find P ys | Some x \<Rightarrow> Some x)"
  by (induction xs) simp_all

lemma item_id_le_max: "r \<in> set rows \<Longrightarrow> item_id r \<le> foldr max (map item_id rows) s"
  by (induction rows) auto

lemma select_new_row:
  assumes "item_id r = next_rowid st"
  shows "select_rowid \<lparr>items = items st @ [r], seq = k\<rparr> (next_rowid st) = Some r"
proof -
  have "item_id x \<noteq> next_rowid st" if "x \<in> set (items st)" for x
    using item_id_le_max [OF that, of "seq st"] by (simp add: next_rowid_def)
  then have "find (\<lambda>x. item_id x = next_rowid st) (items st) = None"
    by (simp add: find_None_iff)
  then show ?thesis using assms by (simp add: select_rowid_def find_append)
qed

lemma item_id_inserted_row: "item_id (inserted_row E now i n vs) = i"
  by (simp add: inserted_row_def)

lemma create_ok:
  assumes "validate E b = None"
    and "bind_params 4 (create_args b) = Some vs"
    and "r = inserted_row E now (next_rowid st) (trim (name_text (req_name b))) vs"
  shows "create E now b st = (Inr (Some r), \<lparr>items = items st @ [r], seq = next_rowid st\<rparr>)"
proof -
  have "select_rowid \<lparr>items = items st @ [r], seq = next_rowid st\<rparr> (next_rowid st) = Some r"
    by (rule select_new_row) (simp add: assms(3) item_id_inserted_row)
  then show ?thesis
    unfolding create_def Let_def assms(1) assms(2) assms(3) by simp
qed

lemma create_cases:
  assumes "create E now b st = (Inr res, st')"
  obtains vs where "validate E b = None"
    and "bind_params 4 (create_args b) = Some vs"
    and "res = Some (inserted_row E now (next_rowid st) (trim (name_text (req_name b))) vs)"
    and "st' = \<lparr>items = items st @
                 [inserted_row E now (next_rowid st) (trim (name_text (req_name b))) vs],
               seq = next_rowid st\<rparr>"
proof -
  from assms have v: "validate E b = None"
    by (cases "validate E b") (simp_all add: create_def)
  from assms v obtain vs where p: "bind_params 4 (create_args b) = Some vs"
    by (cases "bind_params 4 (create_args b)") (simp_all add: create_def)
  note eq = create_ok [OF v p refl, of now st]
  from assms [unfolded eq]
  have "Some (inserted_row E now (next_rowid st) (trim (name_text (req_name b))) vs) = res"
    and "\<lparr>items = items st @
            [inserted_row E now (next_rowid st) (trim (name_text (req_name b))) vs],
          seq = next_rowid st\<rparr> = st'"
    by (simp_all only: prod.inject sum.inject)
  then show thesis using that [OF v p] by blast
qed


lemma id_matches_upd:
  "id_matches E i (updated_row E' now n vs r) = id_matches E i r"
  "id_matches E i (r\<lparr>completed := c, updated_at := e\<rparr>) = id_matches E i r"
  by (simp_all add: id_matches_def updated_row_def split: option.splits)

lemma select_after_map:
  assumes "\<And>r. id_matches E idtxt (f r) = id_matches E idtxt r"
  shows "select_id E (st\<lparr>items := map (\<lambda>r. if id_matches E idtxt r then f r else r) (items st)\<rparr>) idtxt
           = map_option f (select_id E st idtxt)"
  using find_map_upd [of "id_matches E idtxt" f "items st"] assms by (simp add: select_id_def)

lemma update_ok:
  assumes v: "parseInt idtxt \<noteq> None"
    and o: "select_id E st idtxt = Some old"
    and va: "validate E b = None"
    and p: "bind_params 5 (update_args b idtxt) = Some vs"
    and fdef: "f = updated_row E now (trim (name_text (req_name b))) vs"
  shows "update E now idtxt b st =
           (Inr (Some (f old)),
            st\<lparr>items := map (\<lambda>r. if id_matches E idtxt r then f r else r) (items st)\<rparr>)"
proof -
  have inv: "\<And>r. id_matches E idtxt (f r) = id_matches E idtxt r"
    by (simp add: fdef id_matches_upd)
  have sel: "select_id E (st\<lparr>items := map (\<lambda>r. if id_matches E idtxt r then f r else r) (items st)\<rparr>) idtxt
     = Some (f old)"
    using select_after_map [of E idtxt f st, OF inv] o by simp
  have u: "update E now idtxt b st =
     (Inr (select_id E (st\<lparr>items := map (\<lambda>r. if id_matches E idtxt r then f r else r) (items st)\<rparr>) idtxt),
      st\<lparr>items := map (\<lambda>r. if id_matches E idtxt r then f r else r) (items st)\<rparr>)"
    using valid_idI [OF v] o va p unfolding fdef by (simp add: update_def Let_def)
  show ?thesis unfolding u sel by (rule refl)
qed

lemma update_cases:
  assumes "update E now idtxt b st = (Inr res, st')"
  obtains old vs where "parseInt idtxt \<noteq> None" and "select_id E st idtxt = Some old"
    and "validate E b = None"
    and "bind_params 5 (update_args b idtxt) = Some vs"
    and "res = Some (updated_row E now (trim (name_text (req_name b))) vs old)"
    and "st' = st\<lparr>items := map (\<lambda>r. if id_matches E idtxt r
               then updated_row E now (trim (name_text (req_name b))) vs r else r) (items st)\<rparr>"
proof -
  from assms have v: "parseInt idtxt \<noteq> None"
    by (auto simp: update_def invalid_id_iff split: if_splits)
  note ni = valid_idI [OF v]
  from assms ni obtain old where o: "select_id E st idtxt = Some old"
    by (cases "select_id E st idtxt") (simp_all add: update_def)
  from assms ni o have va: "validate E b = None"
    by (cases "validate E b") (simp_all add: update_def)
  from assms ni o va obtain vs where p: "bind_params 5 (update_args b idtxt) = Some vs"
    by (cases "bind_params 5 (update_args b idtxt)") (simp_all add: update_def)
  note eq = update_ok [OF v o va p refl, of now]
  from assms [unfolded eq]
  have "Some (updated_row E now (trim (name_text (req_name b))) vs old) = res"
    and "st\<lparr>items := map (\<lambda>r. if id_matches E idtxt r
               then updated_row E now (trim (name_text (req_name b))) vs r else r) (items st)\<rparr> = st'"
    by (simp_all only: prod.inject sum.inject)
  then show thesis using that [OF v o va p] by blast
qed


lemma toggle_ok:
  assumes v: "parseInt idtxt \<noteq> None"
    and o: "select_id E st idtxt = Some old"
    and fdef: "f = (\<lambda>r. r\<lparr>completed := SNum (if completed old = SNum 1 then 0 else 1),
                           updated_at := now\<rparr>)"
  shows "toggleCompleted E now idtxt st =
           (Inr (Some (f old)),
            st\<lparr>items := map (\<lambda>r. if id_matches E idtxt r then f r else r) (items st)\<rparr>)"
proof -
  have inv: "\<And>r. id_matches E idtxt (f r) = id_matches E idtxt r"
    by (simp add: fdef id_matches_upd)
  have sel: "select_id E (st\<lparr>items := map (\<lambda>r. if id_matches E idtxt r then f r else r) (items st)\<rparr>) idtxt
     = Some (f old)"
    using select_after_map [of E idtxt f st, OF inv] o by simp
  have u: "toggleCompleted E now idtxt st =
     (Inr (select_id E (st\<lparr>items := map (\<lambda>r. if id_matches E idtxt r then f r else r) (items st)\<rparr>) idtxt),
      st\<lparr>items := map (\<lambda>r. if id_matches E idtxt r then f r else r) (items st)\<rparr>)"
    using valid_idI [OF v] o unfolding fdef by (simp add: toggleCompleted_def Let_def)
  show ?thesis unfolding u sel by (rule refl)
qed



lemma select_id_Some:
  "select_id E st idtxt = Some r \<Longrightarrow> r \<in> set (items st) \<and> id_matches E idtxt r"
  unfolding select_id_def find_Some_iff by auto

lemma update_selects:
  "update E now idtxt b st = (Inr res, st') \<Longrightarrow> res = select_id E st' idtxt"
  by (auto simp: update_def Let_def split: if_splits option.splits)

lemma toggle_selects:
  "toggleCompleted E now idtxt st = (Inr res, st') \<Longrightarrow> res = select_id E st' idtxt"
  by (auto simp: toggleCompleted_def Let_def split: if_splits option.splits)

lemma delete_found:
  assumes "parseInt idtxt \<noteq> None" and "select_id E st idtxt = Some old"
  shows "delete E idtxt st =
           (Inr (parseInt idtxt), st\<lparr>items := filter (\<lambda>r. \<not> id_matches E idtxt r) (items st)\<rparr>)"
proof -
  note ni = valid_idI [OF assms(1)]
  from select_id_Some [OF assms(2)] have "old \<in> set (filter (id_matches E idtxt) (items st))"
    by simp
  then have "filter (id_matches E idtxt) (items st) \<noteq> []"
    by (metis empty_iff empty_set)
  then have pos: "(0 < length (filter (id_matches E idtxt) (items st))) = True"
    by simp
  show ?thesis
    unfolding delete_def Let_def pos using ni assms(2) by simp
qed

subsection \<open>Rows and timestamps\<close>








subsection \<open>Validation\<close>

lemma validate_name_ok:
  assumes "req_name b = JStr n" "trim n \<noteq> []" "length (trim n) \<le> 200"
  shows "validate E b =
           (if truthy (req_due_date b) \<and> \<not> date_valid E (req_due_date b)
            then Some InvalidDueDate else None)"
proof -
  have "n \<noteq> []" using assms(2) by (auto simp: trim_def)
  moreover have "truthy (req_due_date b) \<Longrightarrow> req_due_date b \<noteq> JNull" by auto
  ultimately show ?thesis using assms by (auto simp: validate_def)
qed

lemma validate_range:
  "validate E b = Some e \<Longrightarrow> e = NameRequired \<or> e = NameTooLong \<or> e = InvalidDueDate"
  by (cases "req_name b") (simp_all add: validate_def split: if_splits)

lemma validate_completed: "validate E (b\<lparr>req_completed := c\<rparr>) = validate E b"
  by (simp add: validate_def split: jsval.splits)

lemma trim_empty_name: "trim [] = []"
  by (simp add: trim_def)

lemma validate_not_string:
  "(\<forall>s. req_name b \<noteq> JStr s) \<Longrightarrow> validate E b = Some NameRequired"
  by (cases "req_name b") (simp_all add: validate_def)

lemma validate_blank:
  "req_name b = JStr s \<Longrightarrow> trim s = [] \<Longrightarrow> validate E b = Some NameRequired"
  by (simp add: validate_def)

lemma validate_long:
  "req_name b = JStr s \<Longrightarrow> trim s \<noteq> [] \<Longrightarrow> 200 < length (trim s) \<Longrightarrow>
   validate E b = Some NameTooLong"
  by (auto simp: validate_def trim_empty_name)

lemma create_validate_error: "validate E b = Some e \<Longrightarrow> create E now b st = (Inl e, st)"
  by (simp add: create_def)

lemma create_validate_ok:
  "validate E b = None \<Longrightarrow>
   fst (create E now b st) = Inl (StoreFailure ''Failed to create item'')
     \<or> (\<exists>r. fst (create E now b st) = Inr r)"
  by (cases "bind_params 4 (create_args b)") (simp_all add: create_def Let_def)

lemma update_found:
  assumes "parseInt idtxt \<noteq> None" and "select_id E st idtxt = Some old"
  shows "fst (update E now idtxt b st) \<noteq> Inl InvalidId \<and> fst (update E now idtxt b st) \<noteq> Inl NotFound"
proof (cases "validate E b")
  case (Some e)
  with valid_idI [OF assms(1)] assms(2) have "fst (update E now idtxt b st) = Inl e"
    by (simp add: update_def)
  with validate_range [OF Some] show ?thesis by auto
next
  case None
  show ?thesis
  proof (cases "bind_params 5 (update_args b idtxt)")
    case n: None
    with None valid_idI [OF assms(1)] assms(2)
    have "fst (update E now idtxt b st) = Inl (StoreFailure ''Failed to update item'')"
      by (simp add: update_def)
    then show ?thesis by simp
  next
    case (Some vs)
    from update_ok [OF assms None Some refl, of now] show ?thesis by simp
  qed
qed

lemma text_affinity_str:
  "text_affinity E (if s = [] then SNull else SText s) = (if s = [] then SNull else SText s)"
  by (simp add: text_affinity_def)

lemma numeric_affinity_null: "numeric_affinity E SNull = SNull"
  by (simp add: numeric_affinity_def)

lemma numeric_affinity_num: "numeric_affinity E (SNum q) = SNum q"
  by (simp add: numeric_affinity_def)

subsection \<open>Bodies without arrays and objects\<close>

text \<open>When the description is neither an array nor an object, nothing is spread before
  the third parameter, and \<open>completed\<close> is what the handler passes for it.\<close>

lemma bind_scalar_description:
  assumes "bind_all False (JStr n # d # JNum c # rest) = Some vs" and "is_scalar d"
  shows "vs ! 2 = SNum c"
proof -
  have 1: "bind_all False (JStr n # d # JNum c # rest)
      = map_option (\<lambda>ws. SText n # ws) (bind_all False (d # JNum c # rest))"
    by (rule bind_all_value) simp
  from assms(1) obtain ws where w: "bind_all False (d # JNum c # rest) = Some ws"
    and v: "vs = SText n # ws"
    unfolding 1 by auto
  from w obtain x where "bind_value d = Some x"
    unfolding bind_all_scalar [OF assms(2)] by (cases "bind_value d") simp_all
  from bind_first_three [OF assms(1) this] show ?thesis by auto
qed

lemma create_scalar_completed:
  assumes "create E now b st = (Inr res, st')" and "is_scalar (req_description b)"
  shows "\<exists>r. res = Some r \<and> completed r = SNum 0 \<and> items st' = items st @ [r]"
  using assms(1)
proof (rule create_cases)
  fix vs
  assume p: "bind_params 4 (create_args b) = Some vs"
    and r: "res = Some (inserted_row E now (next_rowid st) (trim (name_text (req_name b))) vs)"
    and s: "st' = \<lparr>items = items st @
                 [inserted_row E now (next_rowid st) (trim (name_text (req_name b))) vs],
               seq = next_rowid st\<rparr>"
  from p have "bind_all False (create_args b) = Some vs"
    by (auto simp: bind_params_def split: option.splits if_splits)
  then have "vs ! 2 = SNum 0"
    unfolding create_args_def
    by (rule bind_scalar_description) (rule is_scalar_or_null [OF assms(2)])
  then have "completed (inserted_row E now (next_rowid st) (trim (name_text (req_name b))) vs) = SNum 0"
    by (simp add: inserted_row_def numeric_affinity_num)
  with r s show ?thesis by simp
qed

lemma update_scalar_completed:
  assumes "update E now idtxt b st = (Inr res, st')" and "is_scalar (req_description b)"
  shows "\<exists>r. res = Some r \<and> select_id E st' idtxt = Some r
           \<and> completed r = SNum (completedValue b)"
  using assms(1)
proof (rule update_cases)
  fix old vs
  assume p: "bind_params 5 (update_args b idtxt) = Some vs"
    and r: "res = Some (updated_row E now (trim (name_text (req_name b))) vs old)"
  from p have "bind_all False (update_args b idtxt) = Some vs"
    by (auto simp: bind_params_def split: option.splits if_splits)
  then have "vs ! 2 = SNum (completedValue b)"
    unfolding update_args_def
    by (rule bind_scalar_description) (rule is_scalar_or_null [OF assms(2)])
  then have "completed (updated_row E now (trim (name_text (req_name b))) vs old)
      = SNum (completedValue b)"
    by (simp add: updated_row_def numeric_affinity_num)
  with r update_selects [OF assms(1)] show ?thesis by simp
qed

text \<open>On a row whose \<open>completed\<close> is 0 or 1, two toggles give the other value and
  then the first again.\<close>

lemma toggle_twice:
  assumes "parseInt idtxt \<noteq> None" and "select_id E st idtxt = Some old"
    and "completed old = SNum 0 \<or> completed old = SNum 1"
  shows "\<exists>r st' r2 st2.
           toggleCompleted E now idtxt st = (Inr (Some r), st') \<and>
           completed r = (if completed old = SNum 1 then SNum 0 else SNum 1) \<and>
           toggleCompleted E now2 idtxt st' = (Inr (Some r2), st2) \<and>
           completed r2 = completed old"
proof -
  let ?r = "old\<lparr>completed := SNum (if completed old = SNum 1 then 0 else 1), updated_at := now\<rparr>"
  let ?st' = "st\<lparr>items := map (\<lambda>r. if id_matches E idtxt r
       then r\<lparr>completed := SNum (if completed old = SNum 1 then 0 else 1), updated_at := now\<rparr>
       else r) (items st)\<rparr>"
  let ?r2 = "?r\<lparr>completed := SNum (if completed ?r = SNum 1 then 0 else 1), updated_at := now2\<rparr>"
  let ?st2 = "?st'\<lparr>items := map (\<lambda>r. if id_matches E idtxt r
       then r\<lparr>completed := SNum (if completed ?r = SNum 1 then 0 else 1), updated_at := now2\<rparr>
       else r) (items ?st')\<rparr>"
  have t1: "toggleCompleted E now idtxt st = (Inr (Some ?r), ?st')"
    by (rule toggle_ok [OF assms(1,2) refl])
  have s1: "select_id E ?st' idtxt = Some ?r"
    using toggle_selects [OF t1] by simp
  have t2: "toggleCompleted E now2 idtxt ?st' = (Inr (Some ?r2), ?st2)"
    by (rule toggle_ok [OF assms(1) s1 refl])
  have p1: "completed ?r = (if completed old = SNum 1 then SNum 0 else SNum 1)" by simp
  have p2: "completed ?r2 = completed old" using assms(3) by auto
  from t1 t2 p1 p2 show ?thesis by blast
qed

subsection \<open>The name sort\<close>

lemma name_clause_le:
  "cmp_clause [By Name d] a b \<noteq> GT \<longleftrightarrow>
     (if d = ASC then cmp_text (name a) (name b) \<noteq> GT else cmp_text (name b) (name a) \<noteq> GT)"
  by (cases d) (simp_all split: ordering.splits)

lemma list_by_name_sorted:
  assumes "sort_param q = Some ''name''"
  shows "\<exists>rows. list_items q st = Inr rows
           \<and> mset rows = mset (applyFilters (items st) (filter_param q) (search_param q))
           \<and> sorted_wrt (\<lambda>a b. if order_param q = Some ''asc''
                                then cmp_text (name a) (name b) \<noteq> GT
                                else cmp_text (name b) (name a) \<noteq> GT) rows"
proof -
  let ?d = "if order_param q = Some ''asc'' then ASC else DESC"
  let ?cl = "[By Name ?d]"
  let ?rows = "applyFilters (order_by ?cl (items st)) (filter_param q) (search_param q)"
  have cl: "getSortClause (sort_param q) (order_param q) = ?cl"
    using assms name_clause [of "order_param q"] by simp
  have l: "list_items q st = Inr ?rows"
    unfolding list_items_def select_ordered_def cl by simp
  have m: "mset ?rows = mset (applyFilters (items st) (filter_param q) (search_param q))"
    by (rule mset_applyFilters) (rule mset_order_by)
  have "sorted_wrt (\<lambda>a b. cmp_clause ?cl a b \<noteq> GT) ?rows"
    by (rule sorted_applyFilters) (rule sorted_order_by)
  then have "sorted_wrt (\<lambda>a b. if order_param q = Some ''asc''
                                then cmp_text (name a) (name b) \<noteq> GT
                                else cmp_text (name b) (name a) \<noteq> GT) ?rows"
    unfolding name_clause_le by (simp split: if_splits)
  with l m show ?thesis by blast
qed

lemma list_by_name_spec_example:
  "map_sum id (map name)
     (list_items \<lparr>sort_param = Some ''name'', order_param = Some ''asc'', filter_param = None,
        search_param = None\<rparr>
        (snd (create sample_engine 200 (plain_body ''c'')
        (snd (create sample_engine 200 (plain_body ''A'')
        (snd (create sample_engine 200 (plain_body ''b'')
        (snd (delete sample_engine ''3''
        (snd (delete sample_engine ''2''
        (snd (delete sample_engine ''1'' sample_store))))))))))))) =
     Inr [''A'', ''b'', ''c'']"
  by code_simp

section \<open>The claims\<close>

subsection \<open>Listing\<close>

text \<open>
  C4. A listing with \<open>sort=date\<close> always succeeds and returns exactly the rows that
  pass the filter and the search. In it no row without a due date comes before a row
  with one, whatever the \<open>order\<close>; and two rows that both have a due date stand in the
  order of their stored values (\<open>cmp_sql\<close>: the raw stored values, not parsed as
  dates), ascending for \<open>order=asc\<close> and descending otherwise.
\<close>

theorem list_by_date_nulls_last:
  assumes "sort_param q = Some ''date''"
  shows "\<exists>rows. list_items q st = Inr rows
           \<and> mset rows = mset (applyFilters (items st) (filter_param q) (search_param q))
           \<and> (\<forall>i j. i < j \<and> j < length rows \<longrightarrow>
                 (due_date (rows ! i) = SNull \<longrightarrow> due_date (rows ! j) = SNull) \<and>
                 (due_date (rows ! i) \<noteq> SNull \<and> due_date (rows ! j) \<noteq> SNull \<longrightarrow>
                    (if order_param q = Some ''asc''
                     then cmp_sql (due_date (rows ! i)) (due_date (rows ! j)) \<noteq> GT
                     else cmp_sql (due_date (rows ! j)) (due_date (rows ! i)) \<noteq> GT)))"
proof -
  let ?d = "if order_param q = Some ''asc'' then ASC else DESC"
  let ?cl = "[Is_null Due_date, By Due_date ?d]"
  let ?rows = "applyFilters (order_by ?cl (items st)) (filter_param q) (search_param q)"
  have cl: "getSortClause (sort_param q) (order_param q) = ?cl"
    using assms date_clause [of "order_param q"] by simp
  have l: "list_items q st = Inr ?rows"
    unfolding list_items_def select_ordered_def cl by simp
  have m: "mset ?rows = mset (applyFilters (items st) (filter_param q) (search_param q))"
    by (rule mset_applyFilters) (rule mset_order_by)
  have s: "sorted_wrt (\<lambda>a b. cmp_clause ?cl a b \<noteq> GT) ?rows"
    by (rule sorted_applyFilters) (rule sorted_order_by)
  have p: "(due_date (?rows ! i) = SNull \<longrightarrow> due_date (?rows ! j) = SNull) \<and>
           (due_date (?rows ! i) \<noteq> SNull \<and> due_date (?rows ! j) \<noteq> SNull \<longrightarrow>
              (if order_param q = Some ''asc''
               then cmp_sql (due_date (?rows ! i)) (due_date (?rows ! j)) \<noteq> GT
               else cmp_sql (due_date (?rows ! j)) (due_date (?rows ! i)) \<noteq> GT))"
    if "i < j \<and> j < length ?rows" for i j
  proof -
    have "cmp_clause ?cl (?rows ! i) (?rows ! j) \<noteq> GT"
      using sorted_wrt_nth_less [OF s, of i j] that by simp
    from date_clause_le [OF this] show ?thesis by (simp split: if_splits)
  qed
  from l m p show ?thesis by blast
qed

text \<open>The sample table listed by due date, latest first: the row without a due date
  is last.\<close>

theorem list_by_date_nulls_last_witness:
  "sort_param \<lparr>sort_param = Some ''date'', order_param = Some ''desc'', filter_param = None,
      search_param = None\<rparr> = Some ''date'' \<and>
   map_sum id (map due_date)
     (list_items \<lparr>sort_param = Some ''date'', order_param = Some ''desc'', filter_param = None,
        search_param = None\<rparr> sample_store) =
     Inr [SText ''2024-01-03T00:00:00.000Z'', SText ''2023-12-31T00:00:00.000Z'', SNull]"
proof -
  let ?q = "\<lparr>sort_param = Some ''date'', order_param = Some ''desc'', filter_param = None,
      search_param = None\<rparr>"
  have h: "sort_param ?q = Some ''date''" by simp
  have e: "map_sum id (map due_date) (list_items ?q sample_store) =
     Inr [SText ''2024-01-03T00:00:00.000Z'', SText ''2023-12-31T00:00:00.000Z'', SNull]"
    by code_simp
  from list_by_date_nulls_last [OF h, of sample_store] h e show ?thesis by blast
qed

text \<open>
  C1. The name sort is \<open>ORDER BY name\<close> under the default collation, which tells
  upper case from lower case. After \<open>POST {name: "a"}\<close> and \<open>POST {name: "B"}\<close> on the
  sample table, the listing by name ascending puts \<open>B\<close> first and \<open>a\<close> after
  \<open>Sample Task 3\<close>, although \<open>a\<close> precedes \<open>Sample Task 3\<close> in the
  case-insensitive comparison.
\<close>

theorem list_by_name_case_sensitive:
  "map_sum id (map name)
     (list_items \<lparr>sort_param = Some ''name'', order_param = Some ''asc'', filter_param = None,
        search_param = None\<rparr>
        (snd (create sample_engine 200 (plain_body ''B'')
           (snd (create sample_engine 200 (plain_body ''a'') sample_store))))) =
     Inr [''B'', ''Sample Task 1'', ''Sample Task 2'', ''Sample Task 3'', ''a'']
   \<and> cmp_nocase ''Sample Task 3'' ''a'' = GT"
  by code_simp

subsection \<open>Creating and replacing\<close>

text \<open>
  C10. Every created record should have \<open>completed = 0\<close>, whatever the body holds.
  POST passes the literal 0 for it, but binds \<open>description\<close> and \<open>due_date\<close>
  unchecked, and the driver spreads an array over the parameters that follow. For
  \<open>POST {"name": "x", "description": [], "due_date": ["Jan 1", 2024]}\<close> the empty array
  binds nothing, so the 0 goes to \<open>description\<close>, \<open>Jan 1\<close> to \<open>completed\<close> and 2024
  to \<open>due_date\<close>: the request succeeds and the new row has \<open>completed = 'Jan 1'\<close>.
\<close>

theorem create_array_body_completed:
  "validate sample_engine (array_body ''x'') = None \<and>
   bind_params 4 (create_args (array_body ''x''))
     = Some [SText ''x'', SNum 0, SText ''Jan 1'', SNum 2024] \<and>
   fst (create sample_engine 200 (array_body ''x'') sample_store)
     = Inr (Some \<lparr>item_id = 4, name = ''x'', description = SText ''0.0'',
                  completed = SText ''Jan 1'', due_date = SNum 2024,
                  created_at = 200, updated_at = 200\<rparr>)"
  by code_simp

text \<open>
  C6. A successful PUT should store \<open>completed = 1\<close> exactly when the body's
  \<open>completed\<close> is \<open>true\<close> or 1. PUT computes that value and passes it third, but the
  same spreading moves it: for \<open>PUT /api/items/1\<close> with \<open>{"name": "x", "completed":
  true, "description": [], "due_date": ["Jan 1", 2024]}\<close> the computed 1 goes to
  \<open>description\<close> and \<open>Jan 1\<close> to \<open>completed\<close>; the request succeeds and the row has
  \<open>completed = 'Jan 1'\<close>, not 1.
\<close>

theorem update_array_body_completed:
  "completedValue ((array_body ''x'')\<lparr>req_completed := JBool True\<rparr>) = 1 \<and>
   bind_params 5 (update_args ((array_body ''x'')\<lparr>req_completed := JBool True\<rparr>) ''1'')
     = Some [SText ''x'', SNum 1, SText ''Jan 1'', SNum 2024, SText ''1''] \<and>
   fst (update sample_engine 300 ''1'' ((array_body ''x'')\<lparr>req_completed := JBool True\<rparr>)
          sample_store)
     = Inr (Some \<lparr>item_id = 1, name = ''x'', description = SText ''1.0'',
                  completed = SText ''Jan 1'', due_date = SNum 2024,
                  created_at = 100, updated_at = 300\<rparr>)"
  by code_simp

text \<open>
  C7 (as stated, refuted). POST with the description \<open>""\<close>, a string, succeeds and
  stores NULL, not the string.
\<close>

theorem description_empty_string_counterexample:
  "map_sum id (map_option description)
     (fst (create sample_engine 200
        ((plain_body ''Buy milk'')\<lparr>req_description := JStr ''''\<rparr>) sample_store))
     = Inr (Some SNull)"
  by code_simp

text \<open>
  C7 (amended). When POST or PUT succeeds on a body whose description is a string, the
  row returned, which is a row of the table, holds that string unchanged (not trimmed)
  if it is non-empty, and NULL if it is the empty string.
\<close>

theorem description_stored_as_given:
  "(create E now b st = (Inr res, st') \<and> req_description b = JStr s \<longrightarrow>
      (\<exists>r. res = Some r \<and> r \<in> set (items st')
           \<and> description r = (if s = [] then SNull else SText s))) \<and>
   (update E now idtxt b st = (Inr res2, st2) \<and> req_description b = JStr s \<longrightarrow>
      (\<exists>r. res2 = Some r \<and> r \<in> set (items st2)
           \<and> description r = (if s = [] then SNull else SText s)))"
proof (intro conjI impI; elim conjE)
  assume c: "create E now b st = (Inr res, st')" and d: "req_description b = JStr s"
  from c show "\<exists>r. res = Some r \<and> r \<in> set (items st')
           \<and> description r = (if s = [] then SNull else SText s)"
  proof (rule create_cases)
    fix vs
    assume p: "bind_params 4 (create_args b) = Some vs"
      and r: "res = Some (inserted_row E now (next_rowid st) (trim (name_text (req_name b))) vs)"
      and s': "st' = \<lparr>items = items st @
                 [inserted_row E now (next_rowid st) (trim (name_text (req_name b))) vs],
               seq = next_rowid st\<rparr>"
    have "bind_value (or_null (req_description b)) = Some (if s = [] then SNull else SText s)"
      unfolding d by (rule bind_value_or_null_str)
    from create_bind_description [OF p this]
    have "vs ! 1 = (if s = [] then SNull else SText s)" by simp
    then have "description (inserted_row E now (next_rowid st) (trim (name_text (req_name b))) vs)
        = (if s = [] then SNull else SText s)"
      using text_affinity_str [of E s] by (simp add: inserted_row_def)
    with r s' show ?thesis by simp
  qed
next
  assume u: "update E now idtxt b st = (Inr res2, st2)" and d: "req_description b = JStr s"
  from u show "\<exists>r. res2 = Some r \<and> r \<in> set (items st2)
           \<and> description r = (if s = [] then SNull else SText s)"
  proof (rule update_cases)
    fix old vs
    assume p: "bind_params 5 (update_args b idtxt) = Some vs"
      and r: "res2 = Some (updated_row E now (trim (name_text (req_name b))) vs old)"
    have "bind_value (or_null (req_description b)) = Some (if s = [] then SNull else SText s)"
      unfolding d by (rule bind_value_or_null_str)
    from update_bind_description [OF p this]
    have "vs ! 1 = (if s = [] then SNull else SText s)" by simp
    then have "description (updated_row E now (trim (name_text (req_name b))) vs old)
        = (if s = [] then SNull else SText s)"
      using text_affinity_str [of E s] by (simp add: updated_row_def)
    moreover have "select_id E st2 idtxt = res2" using update_selects [OF u] by simp
    ultimately show ?thesis using r select_id_Some [of E st2 idtxt] by auto
  qed
qed

theorem description_stored_as_given_witness:
  "create sample_engine 200 ((plain_body ''Buy milk'')\<lparr>req_description := JStr '' two  percent ''\<rparr>) sample_store
     = (Inr (Some \<lparr>item_id = 4, name = ''Buy milk'', description = SText '' two  percent '',
                   completed = SNum 0, due_date = SNull, created_at = 200, updated_at = 200\<rparr>),
        snd (create sample_engine 200 ((plain_body ''Buy milk'')\<lparr>req_description := JStr '' two  percent ''\<rparr>) sample_store))
   \<and> update sample_engine 300 ''2'' ((plain_body ''Sample Task 2'')\<lparr>req_description := JStr '' two  percent ''\<rparr>) sample_store
     = (Inr (Some \<lparr>item_id = 2, name = ''Sample Task 2'', description = SText '' two  percent '',
                   completed = SNum 0, due_date = SNull, created_at = 100, updated_at = 300\<rparr>),
        snd (update sample_engine 300 ''2'' ((plain_body ''Sample Task 2'')\<lparr>req_description := JStr '' two  percent ''\<rparr>) sample_store))"
proof -
  let ?b = "(plain_body ''Buy milk'')\<lparr>req_description := JStr '' two  percent ''\<rparr>"
  let ?b2 = "(plain_body ''Sample Task 2'')\<lparr>req_description := JStr '' two  percent ''\<rparr>"
  have "fst (create sample_engine 200 ?b sample_store)
     = Inr (Some \<lparr>item_id = 4, name = ''Buy milk'', description = SText '' two  percent '',
                   completed = SNum 0, due_date = SNull, created_at = 200, updated_at = 200\<rparr>)"
    by code_simp
  then have c: "create sample_engine 200 ?b sample_store
     = (Inr (Some \<lparr>item_id = 4, name = ''Buy milk'', description = SText '' two  percent '',
                   completed = SNum 0, due_date = SNull, created_at = 200, updated_at = 200\<rparr>),
        snd (create sample_engine 200 ?b sample_store))"
    by (metis prod.collapse)
  have "fst (update sample_engine 300 ''2'' ?b2 sample_store)
     = Inr (Some \<lparr>item_id = 2, name = ''Sample Task 2'', description = SText '' two  percent '',
                   completed = SNum 0, due_date = SNull, created_at = 100, updated_at = 300\<rparr>)"
    by code_simp
  then have u: "update sample_engine 300 ''2'' ?b2 sample_store
     = (Inr (Some \<lparr>item_id = 2, name = ''Sample Task 2'', description = SText '' two  percent '',
                   completed = SNum 0, due_date = SNull, created_at = 100, updated_at = 300\<rparr>),
        snd (update sample_engine 300 ''2'' ?b2 sample_store))"
    by (metis prod.collapse)
  have d: "req_description ?b = JStr '' two  percent ''" by (simp add: plain_body_def)
  from description_stored_as_given [where E = sample_engine and b = ?b and s = "'' two  percent ''"]
    c u d show ?thesis by blast
qed

text \<open>
  C2 (as stated, refuted). The empty string does not parse as a date, yet POST with
  \<open>due_date: ""\<close> succeeds and stores NULL: the check is guarded by the truthiness of
  \<open>due_date\<close>, so the parser is never consulted.
\<close>

theorem due_date_empty_string_counterexample:
  "\<not> date_valid sample_engine (JStr '''') \<and>
   map_sum id (map_option due_date)
     (fst (create sample_engine 200
        ((plain_body ''Buy milk'')\<lparr>req_due_date := JStr ''''\<rparr>) sample_store))
     = Inr (Some SNull)"
  by code_simp

text \<open>
  C2 (amended). On a body whose name passes validation and whose due date is a string:
  if the string is non-empty and does not parse as a date, POST fails with
  \<open>InvalidDueDate\<close> (400, "Invalid due date format") and leaves the table as it was,
  and so does PUT on a valid id of an existing row; if the string is empty, no
  validation fails, and a POST or PUT that succeeds stores NULL as the due date.
\<close>

theorem malformed_due_date_rejected:
  assumes "req_name b = JStr n" and "trim n \<noteq> []" and "length (trim n) \<le> 200"
    and "req_due_date b = JStr s"
  shows "(s \<noteq> [] \<and> \<not> date_valid E (JStr s) \<longrightarrow>
            create E now b st = (Inl InvalidDueDate, st) \<and>
            (parseInt idtxt \<noteq> None \<and> select_id E st idtxt \<noteq> None \<longrightarrow>
               update E now idtxt b st = (Inl InvalidDueDate, st)) \<and>
            status InvalidDueDate = 400 \<and> message InvalidDueDate = ''Invalid due date format'') \<and>
         (s = [] \<longrightarrow>
            validate E b = None \<and>
            (create E now b st = (Inr res, st') \<longrightarrow> (\<exists>r. res = Some r \<and> due_date r = SNull)) \<and>
            (update E now idtxt b st = (Inr res2, st2) \<longrightarrow> (\<exists>r. res2 = Some r \<and> due_date r = SNull)))"
proof (intro conjI impI)
  assume a: "s \<noteq> [] \<and> \<not> date_valid E (JStr s)"
  then have v: "validate E b = Some InvalidDueDate"
    using validate_name_ok [OF assms(1-3), of E] assms(4) by simp
  then show "create E now b st = (Inl InvalidDueDate, st)" by (simp add: create_def)
  show "status InvalidDueDate = 400" by simp
  show "message InvalidDueDate = ''Invalid due date format''" by simp
  assume "parseInt idtxt \<noteq> None \<and> select_id E st idtxt \<noteq> None"
  with v show "update E now idtxt b st = (Inl InvalidDueDate, st)"
    by (auto simp: update_def invalid_id_iff)
next
  assume e: "s = []"
  then show v: "validate E b = None"
    using validate_name_ok [OF assms(1-3), of E] assms(4) by simp
  have dd: "bind_value (or_null (req_due_date b)) = Some SNull"
    using e assms(4) by (simp add: or_null_def)
  {
    assume "create E now b st = (Inr res, st')"
    then show "\<exists>r. res = Some r \<and> due_date r = SNull"
    proof (rule create_cases)
      fix vs
      assume p: "bind_params 4 (create_args b) = Some vs"
        and r: "res = Some (inserted_row E now (next_rowid st) (trim (name_text (req_name b))) vs)"
      from create_bind_due_date [OF p dd] r show ?thesis
        by (simp add: inserted_row_def numeric_affinity_null)
    qed
  }
  {
    assume "update E now idtxt b st = (Inr res2, st2)"
    then show "\<exists>r. res2 = Some r \<and> due_date r = SNull"
    proof (rule update_cases)
      fix old vs
      assume p: "bind_params 5 (update_args b idtxt) = Some vs"
        and r: "res2 = Some (updated_row E now (trim (name_text (req_name b))) vs old)"
      from update_bind_due_date [OF p dd] r show ?thesis
        by (simp add: updated_row_def numeric_affinity_null)
    qed
  }
qed

theorem malformed_due_date_rejected_witness:
  "create sample_engine 200 ((plain_body ''Buy milk'')\<lparr>req_due_date := JStr ''invalid-date''\<rparr>) sample_store
     = (Inl InvalidDueDate, sample_store) \<and>
   update sample_engine 200 ''1'' ((plain_body ''Buy milk'')\<lparr>req_due_date := JStr ''invalid-date''\<rparr>) sample_store
     = (Inl InvalidDueDate, sample_store)"
proof -
  let ?b = "(plain_body ''Buy milk'')\<lparr>req_due_date := JStr ''invalid-date''\<rparr>"
  have 1: "req_name ?b = JStr ''Buy milk''" by (simp add: plain_body_def)
  have 2: "trim ''Buy milk'' \<noteq> []" by code_simp
  have 3: "length (trim ''Buy milk'') \<le> 200" by code_simp
  have 4: "req_due_date ?b = JStr ''invalid-date''" by (simp add: plain_body_def)
  have 5: "''invalid-date'' \<noteq> [] \<and> \<not> date_valid sample_engine (JStr ''invalid-date'')" by code_simp
  have 6: "parseInt ''1'' \<noteq> None \<and> select_id sample_engine sample_store ''1'' \<noteq> None" by code_simp
  from malformed_due_date_rejected [OF 1 2 3 4, of sample_engine 200 sample_store "''1''"] 5 6
  show ?thesis by blast
qed

subsection \<open>Ids and the order of validation\<close>

text \<open>
  C3. An id for which \<open>parseInt\<close> gives NaN is answered with \<open>InvalidId\<close> (400,
  "Valid item ID is required") by GET, PUT, PATCH and DELETE alike, whatever the table
  holds and whatever SQLite would make of the text, and the table stays as it was. Any
  other id is looked up: GET returns the row found or \<open>NotFound\<close> (404); PUT, PATCH and
  DELETE answer \<open>NotFound\<close> when no row is found and go on when one is.
\<close>

theorem invalid_id_before_lookup:
  "(parseInt idtxt = None \<longrightarrow>
      getById E idtxt st = Inl InvalidId \<and>
      update E now idtxt b st = (Inl InvalidId, st) \<and>
      toggleCompleted E now idtxt st = (Inl InvalidId, st) \<and>
      delete E idtxt st = (Inl InvalidId, st)) \<and>
   (parseInt idtxt \<noteq> None \<longrightarrow>
      getById E idtxt st = (case select_id E st idtxt of None \<Rightarrow> Inl NotFound | Some r \<Rightarrow> Inr r) \<and>
      (select_id E st idtxt = None \<longrightarrow>
         update E now idtxt b st = (Inl NotFound, st) \<and>
         toggleCompleted E now idtxt st = (Inl NotFound, st) \<and>
         delete E idtxt st = (Inl NotFound, st)) \<and>
      (select_id E st idtxt \<noteq> None \<longrightarrow>
         fst (update E now idtxt b st) \<notin> {Inl InvalidId, Inl NotFound} \<and>
         (\<exists>r. fst (toggleCompleted E now idtxt st) = Inr (Some r)) \<and>
         fst (delete E idtxt st) = Inr (parseInt idtxt))) \<and>
   status InvalidId = 400 \<and> message InvalidId = ''Valid item ID is required'' \<and>
   status NotFound = 404"
proof (intro conjI impI)
  assume n: "parseInt idtxt = None"
  show "getById E idtxt st = Inl InvalidId" using n by (simp add: getById_def invalid_id_iff)
  show "update E now idtxt b st = (Inl InvalidId, st)" using n by (simp add: update_def invalid_id_iff)
  show "toggleCompleted E now idtxt st = (Inl InvalidId, st)"
    using n by (simp add: toggleCompleted_def invalid_id_iff)
  show "delete E idtxt st = (Inl InvalidId, st)" using n by (simp add: delete_def invalid_id_iff)
next
  assume v: "parseInt idtxt \<noteq> None"
  then have ni: "\<not> invalid_id idtxt" by (simp only: invalid_id_iff not_False_eq_True)
  show "getById E idtxt st = (case select_id E st idtxt of None \<Rightarrow> Inl NotFound | Some r \<Rightarrow> Inr r)"
    using ni by (simp add: getById_def)
  {
    assume m: "select_id E st idtxt = None"
    show "update E now idtxt b st = (Inl NotFound, st)"
      using ni m by (simp add: update_def)
    show "toggleCompleted E now idtxt st = (Inl NotFound, st)"
      using ni m by (simp add: toggleCompleted_def)
    show "delete E idtxt st = (Inl NotFound, st)"
      using ni m by (simp add: delete_def)
  }
  {
    assume "select_id E st idtxt \<noteq> None"
    then obtain old where o: "select_id E st idtxt = Some old" by blast
    show "fst (update E now idtxt b st) \<notin> {Inl InvalidId, Inl NotFound}"
      using update_found [OF v o, of now b] by simp
    show "\<exists>r. fst (toggleCompleted E now idtxt st) = Inr (Some r)"
      using toggle_ok [OF v o refl, of now] by simp
    show "fst (delete E idtxt st) = Inr (parseInt idtxt)"
      using delete_found [OF v o] by simp
  }
qed simp_all

theorem invalid_id_before_lookup_witness:
  "parseInt ''abc'' = None \<and>
   getById sample_engine ''abc'' sample_store = Inl InvalidId \<and>
   update sample_engine 200 ''abc'' (plain_body ''Buy milk'') sample_store = (Inl InvalidId, sample_store) \<and>
   toggleCompleted sample_engine 200 ''abc'' sample_store = (Inl InvalidId, sample_store) \<and>
   delete sample_engine ''abc'' sample_store = (Inl InvalidId, sample_store) \<and>
   parseInt ''42'' \<noteq> None \<and> select_id sample_engine sample_store ''42'' = None \<and>
   getById sample_engine ''42'' sample_store = Inl NotFound \<and>
   delete sample_engine ''42'' sample_store = (Inl NotFound, sample_store)"
proof -
  have 1: "parseInt ''abc'' = None" by code_simp
  have 2: "parseInt ''42'' \<noteq> None" by code_simp
  have 3: "select_id sample_engine sample_store ''42'' = None" by code_simp
  note a = invalid_id_before_lookup [of "''abc''" sample_engine sample_store 200 "plain_body ''Buy milk''"]
  note b = invalid_id_before_lookup [of "''42''" sample_engine sample_store 200 "plain_body ''Buy milk''"]
  from a 1 have A: "getById sample_engine ''abc'' sample_store = Inl InvalidId \<and>
      update sample_engine 200 ''abc'' (plain_body ''Buy milk'') sample_store = (Inl InvalidId, sample_store) \<and>
      toggleCompleted sample_engine 200 ''abc'' sample_store = (Inl InvalidId, sample_store) \<and>
      delete sample_engine ''abc'' sample_store = (Inl InvalidId, sample_store)"
    by blast
  from b 2 3 have B: "getById sample_engine ''42'' sample_store =
      (case select_id sample_engine sample_store ''42'' of None \<Rightarrow> Inl NotFound | Some r \<Rightarrow> Inr r)"
    and C: "delete sample_engine ''42'' sample_store = (Inl NotFound, sample_store)"
    by blast+
  from B have B': "getById sample_engine ''42'' sample_store = Inl NotFound"
    by (simp only: 3 option.case)
  from 1 2 3 A B' C show ?thesis by blast
qed

text \<open>
  C5. POST validates in a fixed order and the first failing check gives the error.
  A name that is not a string, or is blank after \<open>trim\<close>, gives "Item name is
  required" whatever the due date is; a trimmed name longer than 200 gives "Item name
  must not exceed 200 characters" whatever the due date is; a trimmed name of 1 to 200
  characters passes both checks, and then a present due date that does not parse gives
  "Invalid due date format", while an absent or valid one lets validation pass. All
  three errors have status 400 and leave the table as it was.
\<close>

theorem create_validation_order:
  "((\<forall>s. req_name b \<noteq> JStr s) \<or> (\<exists>s. req_name b = JStr s \<and> trim s = []) \<longrightarrow>
      create E now b st = (Inl NameRequired, st)) \<and>
   (req_name b = JStr n \<and> trim n \<noteq> [] \<and> 200 < length (trim n) \<longrightarrow>
      create E now b st = (Inl NameTooLong, st)) \<and>
   (req_name b = JStr n \<and> trim n \<noteq> [] \<and> length (trim n) \<le> 200 \<longrightarrow>
      (truthy (req_due_date b) \<and> \<not> date_valid E (req_due_date b) \<longrightarrow>
         create E now b st = (Inl InvalidDueDate, st)) \<and>
      (\<not> truthy (req_due_date b) \<or> date_valid E (req_due_date b) \<longrightarrow>
         validate E b = None \<and>
         (fst (create E now b st) = Inl (StoreFailure ''Failed to create item'') \<or> (\<exists>r. fst (create E now b st) = Inr r)))) \<and>
   message NameRequired = ''Item name is required'' \<and>
   message NameTooLong = ''Item name must not exceed 200 characters'' \<and>
   message InvalidDueDate = ''Invalid due date format'' \<and>
   status NameRequired = 400 \<and> status NameTooLong = 400 \<and> status InvalidDueDate = 400"
proof (intro conjI impI)
  assume "(\<forall>s. req_name b \<noteq> JStr s) \<or> (\<exists>s. req_name b = JStr s \<and> trim s = [])"
  then have "validate E b = Some NameRequired"
    using validate_not_string [of b E] validate_blank [of b _ E] by blast
  then show "create E now b st = (Inl NameRequired, st)" by (rule create_validate_error)
next
  assume "req_name b = JStr n \<and> trim n \<noteq> [] \<and> 200 < length (trim n)"
  then have "validate E b = Some NameTooLong" using validate_long [of b n E] by blast
  then show "create E now b st = (Inl NameTooLong, st)" by (rule create_validate_error)
next
  assume a: "req_name b = JStr n \<and> trim n \<noteq> [] \<and> length (trim n) \<le> 200"
  then have v: "validate E b =
           (if truthy (req_due_date b) \<and> \<not> date_valid E (req_due_date b)
            then Some InvalidDueDate else None)"
    using validate_name_ok [of b n E] by blast
  {
    assume "truthy (req_due_date b) \<and> \<not> date_valid E (req_due_date b)"
    with v have "validate E b = Some InvalidDueDate" by simp
    then show "create E now b st = (Inl InvalidDueDate, st)" by (rule create_validate_error)
  }
  {
    assume "\<not> truthy (req_due_date b) \<or> date_valid E (req_due_date b)"
    with v show n: "validate E b = None" by auto
    then show "fst (create E now b st) = Inl (StoreFailure ''Failed to create item'') \<or> (\<exists>r. fst (create E now b st) = Inr r)"
      by (rule create_validate_ok)
  }
qed simp_all

theorem create_validation_order_witness:
  "create sample_engine 200 ((plain_body ''   '')\<lparr>req_due_date := JStr ''invalid-date''\<rparr>) sample_store
     = (Inl NameRequired, sample_store) \<and>
   create sample_engine 200
     ((plain_body (replicate 201 CHR ''a''))\<lparr>req_due_date := JStr ''invalid-date''\<rparr>) sample_store
     = (Inl NameTooLong, sample_store) \<and>
   create sample_engine 200
     ((plain_body (replicate 200 CHR ''a''))\<lparr>req_due_date := JStr ''invalid-date''\<rparr>) sample_store
     = (Inl InvalidDueDate, sample_store) \<and>
   validate sample_engine (plain_body (replicate 200 CHR ''a'')) = None"
proof -
  let ?b1 = "(plain_body ''   '')\<lparr>req_due_date := JStr ''invalid-date''\<rparr>"
  let ?b2 = "(plain_body (replicate 201 CHR ''a''))\<lparr>req_due_date := JStr ''invalid-date''\<rparr>"
  let ?b3 = "(plain_body (replicate 200 CHR ''a''))\<lparr>req_due_date := JStr ''invalid-date''\<rparr>"
  let ?b4 = "plain_body (replicate 200 CHR ''a'')"
  have "req_name ?b1 = JStr ''   '' \<and> trim ''   '' = []" by code_simp
  then have h1: "(\<forall>s. req_name ?b1 \<noteq> JStr s) \<or> (\<exists>s. req_name ?b1 = JStr s \<and> trim s = [])"
    by blast
  have h2: "req_name ?b2 = JStr (replicate 201 CHR ''a'') \<and> trim (replicate 201 CHR ''a'') \<noteq> []
      \<and> 200 < length (trim (replicate 201 CHR ''a''))"
    by code_simp
  have h3: "req_name ?b3 = JStr (replicate 200 CHR ''a'') \<and> trim (replicate 200 CHR ''a'') \<noteq> []
      \<and> length (trim (replicate 200 CHR ''a'')) \<le> 200"
    by code_simp
  have h3': "truthy (req_due_date ?b3) \<and> \<not> date_valid sample_engine (req_due_date ?b3)"
    by code_simp
  have h4: "req_name ?b4 = JStr (replicate 200 CHR ''a'') \<and> trim (replicate 200 CHR ''a'') \<noteq> []
      \<and> length (trim (replicate 200 CHR ''a'')) \<le> 200"
    by code_simp
  have h4': "\<not> truthy (req_due_date ?b4) \<or> date_valid sample_engine (req_due_date ?b4)"
    by code_simp
  have 1: "create sample_engine 200 ?b1 sample_store = (Inl NameRequired, sample_store)"
    using create_validation_order [where b = ?b1 and E = sample_engine and now = 200
        and st = sample_store] h1 by blast
  have 2: "create sample_engine 200 ?b2 sample_store = (Inl NameTooLong, sample_store)"
    using create_validation_order [where b = ?b2 and E = sample_engine and now = 200
        and st = sample_store and n = "replicate 201 CHR ''a''"] h2 by blast
  have 3: "create sample_engine 200 ?b3 sample_store = (Inl InvalidDueDate, sample_store)"
    using create_validation_order [where b = ?b3 and E = sample_engine and now = 200
        and st = sample_store and n = "replicate 200 CHR ''a''"] h3 h3' by blast
  have 4: "validate sample_engine ?b4 = None"
    using create_validation_order [where b = ?b4 and E = sample_engine and now = 200
        and st = sample_store and n = "replicate 200 CHR ''a''"] h4 h4' by blast
  from 1 2 3 4 show ?thesis by blast
qed

subsection \<open>Timestamps and the toggle\<close>



text \<open>
  C9. PATCH should flip \<open>completed\<close> between false and true, and two PATCHes should
  restore it. PATCH writes \<open>existingItem.completed === 1 ? 0 : 1\<close>, which does so on a
  row that holds 0 or 1; but POST and PUT can store other values (the spreading shown
  for C10 and C6). After \<open>POST {"name": "x", "description": [], "due_date": ["Jan 1",
  2024]}\<close> row 4 has \<open>completed = 'Jan 1'\<close>; the first \<open>PATCH /api/items/4\<close> gives 1 and
  the second gives 0, not the first value.
\<close>

theorem toggle_after_array_body:
  "map_option completed
     (select_id sample_engine (snd (create sample_engine 200 (array_body ''x'') sample_store)) ''4'')
     = Some (SText ''Jan 1'') \<and>
   map_sum id (map_option completed)
     (fst (toggleCompleted sample_engine 300 ''4''
        (snd (create sample_engine 200 (array_body ''x'') sample_store))))
     = Inr (Some (SNum 1)) \<and>
   map_sum id (map_option completed)
     (fst (toggleCompleted sample_engine 400 ''4''
        (snd (toggleCompleted sample_engine 300 ''4''
           (snd (create sample_engine 200 (array_body ''x'') sample_store))))))
     = Inr (Some (SNum 0))"
  by code_simp

end
